theory Spec2Isabelle
  imports Complex_Main "HOL-Library.Product_Lexorder"
begin

section \<open>Errors and values\<close>

text \<open>
  The scripts work on pandas columns of Python floats. The embedding uses exact
  rationals for these numbers: every comparison and every count below is taken over
  \<open>rat\<close>, and binary rounding is not part of the model. A Python exception is a value
  of \<open>error\<close>, returned on the left of a sum.
\<close>

datatype error = ZeroDivisionError | ValueError | KeyError

section \<open>Cliff's delta (Statistical\_analysis\_HighGasUsed.py, Statistical\_analysis\_LowGasUsed.py)\<close>

text \<open>
  \<^verbatim>\<open>
  def cliffs_delta(lst1, lst2):
      n1 = len(lst1)
      n2 = len(lst2)
      all_pairs = [(x1, x2) for x1 in lst1 for x2 in lst2]
      n_concordant = sum(1 for x1, x2 in all_pairs if x1 > x2)
      n_discordant = sum(1 for x1, x2 in all_pairs if x1 < x2)
      delta = (n_concordant - n_discordant) / (n1 * n2)
      return delta
  \<close>
  The two files define the function with the same body. The division raises
  \<open>ZeroDivisionError\<close> when a group is empty.
\<close>

definition all_pairs :: "rat list \<Rightarrow> rat list \<Rightarrow> (rat \<times> rat) list" where
  "all_pairs lst1 lst2 = concat (map (\<lambda>x1. map (\<lambda>x2. (x1, x2)) lst2) lst1)"

definition n_concordant :: "rat list \<Rightarrow> rat list \<Rightarrow> nat" where
  "n_concordant lst1 lst2 = length (filter (\<lambda>(x1, x2). x1 > x2) (all_pairs lst1 lst2))"

definition n_discordant :: "rat list \<Rightarrow> rat list \<Rightarrow> nat" where
  "n_discordant lst1 lst2 = length (filter (\<lambda>(x1, x2). x1 < x2) (all_pairs lst1 lst2))"

definition cliffs_delta :: "rat list \<Rightarrow> rat list \<Rightarrow> error + rat" where
  "cliffs_delta lst1 lst2 =
     (let n1 = length lst1;
          n2 = length lst2
      in if n1 * n2 = 0 then Inl ZeroDivisionError
         else Inr ((of_nat (n_concordant lst1 lst2) - of_nat (n_discordant lst1 lst2))
                     / of_nat (n1 * n2)))"

text \<open>
  The specification's reading of the same quantity: the positions \<open>(i, j)\<close> of the
  Cartesian product of the two groups at which the first group's observation is the
  larger one, and those at which it is the smaller one.
\<close>

definition exceeding :: "rat list \<Rightarrow> rat list \<Rightarrow> (nat \<times> nat) set" where
  "exceeding A B = {(i, j). i < length A \<and> j < length B \<and> A ! i > B ! j}"

definition exceeded :: "rat list \<Rightarrow> rat list \<Rightarrow> (nat \<times> nat) set" where
  "exceeded A B = {(i, j). i < length A \<and> j < length B \<and> A ! i < B ! j}"

section \<open>Tables read from the CSV files\<close>

text \<open>
  A cell that pandas holds as \<open>NaN\<close> is \<open>None\<close>. A latency file carries the declared
  latency column (called \<open>Latency (s)\<close> after the rename) and, depending on the
  experiment, \<open>Transaction Hash\<close>, \<open>Iteration\<close> and \<open>UserIndex\<close>; which of these
  columns the file has is recorded beside its rows, since the scripts branch on
  \<open>'UserIndex' in df.columns\<close> and the like. A column that a frame does not have is
  \<open>None\<close> in every row of the model.
\<close>

record latency_row =
  Latency :: "rat option"
  Transaction_Hash :: "string option"
  Iteration :: "int option"
  UserIndex :: "int option"

record latency_file =
  has_latency_column :: bool
  has_Transaction_Hash :: bool
  has_Iteration :: bool
  has_UserIndex :: bool
  file_rows :: "latency_row list"

record block_row =
  Gas_Price :: "rat option"
  Block_Size :: "rat option"
  Transaction_Count :: "rat option"
  Block_Transaction_Hash :: "string option"

text \<open>
  A merged record is a block row beside a latency row. In the list of files handed to
  the Loader, \<open>None\<close> stands for a path at which \<open>os.path.exists\<close> is false.
\<close>

type_synonym merged_row = "block_row \<times> latency_row"

definition nan_latency :: latency_row where
  "nan_latency = \<lparr>Latency = None, Transaction_Hash = None, Iteration = None, UserIndex = None\<rparr>"

definition nan_block :: block_row where
  "nan_block = \<lparr>Gas_Price = None, Block_Size = None, Transaction_Count = None,
                 Block_Transaction_Hash = None\<rparr>"

subsection \<open>\<open>groupby(...).first().reset_index()\<close>\<close>

text \<open>
  pandas' \<open>GroupBy.first\<close> takes, for every group and every column that is not a key,
  the first entry of the column that is not \<open>NaN\<close>. Rows with a \<open>NaN\<close> key belong to no
  group, and the groups come out sorted by key.
\<close>

definition first_valid :: "'a option list \<Rightarrow> 'a option" where
  "first_valid vs = (case filter (\<lambda>v. v \<noteq> None) vs of [] \<Rightarrow> None | v # _ \<Rightarrow> v)"

definition group_keys :: "(latency_row \<Rightarrow> 'k option) \<Rightarrow> latency_row list \<Rightarrow> 'k list" where
  "group_keys key df = remdups (List.map_filter key df)"

definition group_rows :: "(latency_row \<Rightarrow> 'k option) \<Rightarrow> latency_row list \<Rightarrow> 'k \<Rightarrow> latency_row list" where
  "group_rows key df k = filter (\<lambda>r. key r = Some k) df"

definition key_Iteration_UserIndex :: "latency_row \<Rightarrow> (int \<times> int) option" where
  "key_Iteration_UserIndex r =
     (case (Iteration r, UserIndex r) of (Some i, Some u) \<Rightarrow> Some (i, u) | _ \<Rightarrow> None)"

definition groupby_Iteration_UserIndex_first :: "latency_row list \<Rightarrow> latency_row list" where
  "groupby_Iteration_UserIndex_first df =
     map (\<lambda>(i, u). let grp = group_rows key_Iteration_UserIndex df (i, u)
                    in \<lparr>Latency = first_valid (map Latency grp),
                        Transaction_Hash = first_valid (map Transaction_Hash grp),
                        Iteration = Some i, UserIndex = Some u\<rparr>)
         (sort (group_keys key_Iteration_UserIndex df))"

definition groupby_Iteration_first :: "latency_row list \<Rightarrow> latency_row list" where
  "groupby_Iteration_first df =
     map (\<lambda>i. let grp = group_rows Iteration df i
               in \<lparr>Latency = first_valid (map Latency grp),
                   Transaction_Hash = first_valid (map Transaction_Hash grp),
                   Iteration = Some i, UserIndex = first_valid (map UserIndex grp)\<rparr>)
         (sort (group_keys Iteration df))"

subsection \<open>Column selection, \<open>dropna\<close> and the two joins\<close>

definition select_Latency_Hash :: "latency_row \<Rightarrow> latency_row" where
  "select_Latency_Hash r = r\<lparr>Iteration := None, UserIndex := None\<rparr>"

definition select_Latency_Iteration_UserIndex :: "latency_row \<Rightarrow> latency_row" where
  "select_Latency_Iteration_UserIndex r = r\<lparr>Transaction_Hash := None\<rparr>"

definition select_Latency_Iteration :: "latency_row \<Rightarrow> latency_row" where
  "select_Latency_Iteration r = r\<lparr>Transaction_Hash := None, UserIndex := None\<rparr>"

definition dropna_Transaction_Hash :: "latency_row list \<Rightarrow> latency_row list" where
  "dropna_Transaction_Hash df = filter (\<lambda>r. Transaction_Hash r \<noteq> None) df"

definition block_complete :: "block_row \<Rightarrow> bool" where
  "block_complete g \<longleftrightarrow> Gas_Price g \<noteq> None \<and> Block_Size g \<noteq> None
      \<and> Transaction_Count g \<noteq> None \<and> Block_Transaction_Hash g \<noteq> None"

text \<open>
  \<open>pd.merge(gas, latency, on='Transaction Hash', how='inner')\<close>: one record for every
  pair of a block row and a latency row with equal keys, in the order of the block
  rows. pandas matches a \<open>NaN\<close> key with a \<open>NaN\<close> key, as the equality of \<open>None\<close> does.
  The merged frame has the columns of the block frame and \<open>Latency (s)\<close>.
\<close>

definition merge_inner :: "block_row list \<Rightarrow> latency_row list \<Rightarrow> merged_row list" where
  "merge_inner gas lat =
     concat (map (\<lambda>g. map (\<lambda>l. (g, l))
                        (filter (\<lambda>l. Transaction_Hash l = Block_Transaction_Hash g) lat)) gas)"

definition hash_complete :: "merged_row \<Rightarrow> bool" where
  "hash_complete m \<longleftrightarrow> block_complete (fst m) \<and> Latency (snd m) \<noteq> None"

text \<open>
  \<open>pd.concat([gas.reset_index(drop=True), latency.reset_index(drop=True)], axis=1)\<close>:
  the rows are put side by side by position, and the shorter frame is filled with
  \<open>NaN\<close>. The frame has the columns of the block frame, \<open>Latency (s)\<close>, \<open>Iteration\<close>, and
  \<open>UserIndex\<close> when a latency file had it (\<open>user_col\<close>).
\<close>

fun concat_axis1 :: "block_row list \<Rightarrow> latency_row list \<Rightarrow> merged_row list" where
  "concat_axis1 [] [] = []"
| "concat_axis1 (g # gs) [] = (g, nan_latency) # concat_axis1 gs []"
| "concat_axis1 [] (l # ls) = (nan_block, l) # concat_axis1 [] ls"
| "concat_axis1 (g # gs) (l # ls) = (g, l) # concat_axis1 gs ls"

definition index_latency_complete :: "bool \<Rightarrow> latency_row \<Rightarrow> bool" where
  "index_latency_complete user_col l \<longleftrightarrow> Latency l \<noteq> None \<and> Iteration l \<noteq> None
      \<and> (if user_col then UserIndex l \<noteq> None else True)"

definition index_complete :: "bool \<Rightarrow> merged_row \<Rightarrow> bool" where
  "index_complete user_col m \<longleftrightarrow>
     block_complete (fst m) \<and> index_latency_complete user_col (snd m)"

section \<open>The Loader: \<open>process_service_data\<close>\<close>

subsection \<open>Latency\_analysis\_each\_function.py (index-based and hash-based)\<close>

text \<open>
  One latency file, lines 81 to 96. The body runs under \<open>try\<close>: a \<open>KeyError\<close> of a
  column selection is caught, a message is printed and the file adds nothing, which
  is the result \<open>None\<close> here, as it is for a file without the declared latency column
  and for a call with neither mode switched on.
  Latency\_breach+penalty\_analysis\_LowGasUsed\_final.py, Statistical\_analysis\_LowGasUsed.py
  and Latency\_addition+selection\_analysis\_HighGasUsed\_final.py take the same steps and
  differ in the messages they print.
\<close>

definition load_latency_file :: "bool \<Rightarrow> bool \<Rightarrow> latency_file \<Rightarrow> latency_row list option" where
  "load_latency_file index_based use_transaction_hash f =
     (let df = (if index_based then
                  (if has_UserIndex f \<and> has_Iteration f
                     then groupby_Iteration_UserIndex_first (file_rows f)
                   else if has_Iteration f then groupby_Iteration_first (file_rows f)
                   else file_rows f)
                else if use_transaction_hash \<and> has_Transaction_Hash f
                  then dropna_Transaction_Hash (file_rows f)
                else file_rows f)
      in if has_latency_column f then
           (if index_based then
              (if has_UserIndex f
                 then (if has_Iteration f
                         then Some (map select_Latency_Iteration_UserIndex df) else None)
               else (if has_Iteration f then Some (map select_Latency_Iteration df) else None))
            else if use_transaction_hash then
              (if has_Transaction_Hash f then Some (map select_Latency_Hash df) else None)
            else None)
         else None)"

definition latency_data_list :: "bool \<Rightarrow> bool \<Rightarrow> latency_file option list \<Rightarrow> latency_file list" where
  "latency_data_list index_based use_transaction_hash data_files =
     filter (\<lambda>f. load_latency_file index_based use_transaction_hash f \<noteq> None)
            (List.map_filter id data_files)"

definition all_latency_data :: "bool \<Rightarrow> bool \<Rightarrow> latency_file option list \<Rightarrow> latency_row list" where
  "all_latency_data index_based use_transaction_hash data_files =
     concat (List.map_filter (load_latency_file index_based use_transaction_hash)
               (List.map_filter id data_files))"

text \<open>
  The concatenated latency frame has a \<open>UserIndex\<close> column when one of the frames that
  were appended has it.
\<close>

definition latency_has_UserIndex :: "bool \<Rightarrow> bool \<Rightarrow> latency_file option list \<Rightarrow> bool" where
  "latency_has_UserIndex index_based use_transaction_hash data_files =
     (index_based \<and>
      list_ex has_UserIndex (latency_data_list index_based use_transaction_hash data_files))"

text \<open>
  A block file, lines 106 to 110: the four columns are read and the block size is
  turned into kilobytes. A file that does not exist, or whose read raises, adds
  nothing: both are \<open>None\<close> in the list of block files.
\<close>

definition block_size_kb :: "block_row \<Rightarrow> block_row" where
  "block_size_kb g = g\<lparr>Block_Size := map_option (\<lambda>b. b / 1024) (Block_Size g)\<rparr>"

definition all_gas_data :: "block_row list option list \<Rightarrow> block_row list" where
  "all_gas_data block_files = concat (map (map block_size_kb) (List.map_filter id block_files))"

text \<open>The merge, lines 118 to 128. An empty frame is the empty list of records.\<close>

definition process_service_data ::
  "latency_file option list \<Rightarrow> block_row list option list \<Rightarrow> bool \<Rightarrow> bool \<Rightarrow> merged_row list" where
  "process_service_data data_files block_files index_based use_transaction_hash =
     (let all_latency = all_latency_data index_based use_transaction_hash data_files;
          all_gas = all_gas_data block_files
      in if all_latency \<noteq> [] \<and> all_gas \<noteq> [] then
           (if index_based then
              filter (index_complete
                        (latency_has_UserIndex index_based use_transaction_hash data_files))
                     (concat_axis1 all_gas all_latency)
            else if use_transaction_hash then
              filter hash_complete (merge_inner all_gas all_latency)
            else [])
         else [])"

subsection \<open>Statistical\_analysis\_HighGasUsed.py (hash-based, no \<open>dropna\<close> after the merge)\<close>





subsection \<open>Latency\_addition+selection\_analysis\_Phase1.py (hash-based, \<open>dropna\<close> after the merge)\<close>




section \<open>The Quintile Binner: \<open>pd.qcut(x, 5, labels=['Q1','Q2','Q3','Q4','Q5'])\<close>\<close>

text \<open>
  Every script bins a covariate with this one call of pandas. What the call does:
  \<^item> the six bin edges are the quantiles of the values that are not \<open>NaN\<close> at 0, 20, 40,
    60, 80 and 100 percent, each interpolated linearly between the two order
    statistics around the position \<open>q * (n - 1)\<close>;
  \<^item> if two edges are equal, \<open>ValueError\<close> (``Bin edges must be unique'') is raised, as it
    is when there is no value at all;
  \<^item> otherwise a value falls into the bin whose right-closed interval holds it
    (\<open>searchsorted\<close> from the left on the edges), and the least value into the first
    bin. A \<open>NaN\<close> cell, or a value outside the edges, gets no label.
  A value is put into a bin by comparing it with the edges; the order of the rows
  plays no part.
\<close>

datatype quintile = Q1 | Q2 | Q3 | Q4 | Q5

definition labels :: "quintile list" where
  "labels = [Q1, Q2, Q3, Q4, Q5]"

definition quantile :: "rat list \<Rightarrow> rat \<Rightarrow> rat" where
  "quantile sorted_values q =
     (let pos = q * of_nat (length sorted_values - 1);
          i = nat \<lfloor>pos\<rfloor>;
          j = nat \<lceil>pos\<rceil>
      in sorted_values ! i + (sorted_values ! j - sorted_values ! i) * (pos - of_int \<lfloor>pos\<rfloor>))"

definition bin_edges :: "rat list \<Rightarrow> rat list" where
  "bin_edges values = map (\<lambda>k. quantile (sort values) (of_nat k / 5)) [0..<6]"

definition searchsorted_left :: "rat list \<Rightarrow> rat \<Rightarrow> nat" where
  "searchsorted_left bins v = length (filter (\<lambda>b. b < v) bins)"

definition cut_label :: "rat list \<Rightarrow> rat \<Rightarrow> quintile option" where
  "cut_label bins v =
     (let ids = (if v = bins ! 0 then 1 else searchsorted_left bins v)
      in if ids = 0 \<or> ids = length bins then None else Some (labels ! (ids - 1)))"

definition qcut :: "rat option list \<Rightarrow> error + quintile option list" where
  "qcut x =
     (let values = List.map_filter id x
      in if values = [] then Inl ValueError
         else let bins = bin_edges values
              in if \<not> distinct bins then Inl ValueError
                 else Inr (map (\<lambda>c. case c of None \<Rightarrow> None | Some v \<Rightarrow> cut_label bins v) x))"

definition bin_size :: "quintile option list \<Rightarrow> quintile \<Rightarrow> nat" where
  "bin_size cats q = length (filter (\<lambda>c. c = Some q) cats)"

text \<open>
  With \<open>n\<close> values the edge at \<open>k/5\<close> lies at position \<open>k * (n - 1) / 5\<close> of the sorted
  values. \<open>at_fifths s m\<close> is the value interpolated at position \<open>m / 5\<close> of \<open>s\<close>.
\<close>

definition at_fifths :: "rat list \<Rightarrow> nat \<Rightarrow> rat" where
  "at_fifths s m = s ! (m div 5) + (s ! Suc (m div 5) - s ! (m div 5)) * (of_nat (m mod 5) / 5)"

text \<open>
  The place of a label among the five, from 0, and the number of places \<open>t\<close> of \<open>N\<close>
  sorted values with \<open>rank q * (N - 1) < 5 * t\<close> and \<open>5 * t \<le> (rank q + 1) * (N - 1)\<close>,
  with one more for the first label.
\<close>

definition rank :: "quintile \<Rightarrow> nat" where
  "rank q = (case q of Q1 \<Rightarrow> 0 | Q2 \<Rightarrow> 1 | Q3 \<Rightarrow> 2 | Q4 \<Rightarrow> 3 | Q5 \<Rightarrow> 4)"

definition bin_count :: "nat \<Rightarrow> quintile \<Rightarrow> nat" where
  "bin_count N q = (if q = Q1 then 1 else 0)
                   + (Suc (rank q) * (N - 1) div 5 - rank q * (N - 1) div 5)"

section \<open>Omnibus test and post-hoc analysis\<close>

text \<open>
  The tests themselves are library calls: \<open>scipy.stats.kruskal\<close>,
  \<open>scikit_posthocs.posthoc_dunn\<close> and, in the Phase 1 and Phase 2 scripts, the function
  of the \<open>cliffs_delta\<close> package. What they compute from the latencies is a parameter
  of the model:
  \<^item> \<open>kruskal\<close> maps the list of groups to the pair of the H statistic and the p-value;
  \<^item> \<open>dunn_p\<close> maps the groups and two bins to the two-sided p-value of Dunn's rank-sum
    z statistic for the two bins, before any adjustment;
  \<^item> \<open>cliffs_delta_pkg\<close> maps two groups to the pair of delta and its verbal size.
  What the scripts decide is in the model: which groups are handed over, the
  \<open>p_adjust\<close> argument, the threshold \<open>0.05\<close>, and what goes into the table.
  The groups hold the latencies that are present; a \<open>NaN\<close> latency, which only
  Statistical\_analysis\_HighGasUsed.py can let through, is outside the model.
\<close>

definition group_latency :: "merged_row list \<Rightarrow> quintile option list \<Rightarrow> quintile \<Rightarrow> rat list" where
  "group_latency df cats q =
     List.map_filter (\<lambda>(m, c). if c = Some q then Latency (snd m) else None) (zip df cats)"

definition observed :: "quintile option list \<Rightarrow> quintile list" where
  "observed cats = filter (\<lambda>q. Some q \<in> set cats) labels"

definition unique :: "'a list \<Rightarrow> 'a list" where
  "unique xs = rev (remdups (rev xs))"

text \<open>
  \<open>posthoc_dunn(..., p_adjust=...)\<close> fills the upper triangle with the p-values of the
  pairs and, when \<open>p_adjust\<close> is given, hands the whole triangle to
  \<open>multipletests\<close>; its Bonferroni method multiplies every p-value by the number of
  p-values it was given and caps the product at 1. Without the argument the
  p-values stay as they are. The diagonal is 1.
\<close>

datatype p_adjust = No_adjustment | Bonferroni

definition bonferroni :: "nat \<Rightarrow> rat \<Rightarrow> rat" where
  "bonferroni ntests p = min 1 (p * of_nat ntests)"

definition posthoc_dunn ::
  "(quintile \<Rightarrow> quintile \<Rightarrow> rat) \<Rightarrow> quintile list \<Rightarrow> p_adjust \<Rightarrow> quintile \<Rightarrow> quintile \<Rightarrow> rat" where
  "posthoc_dunn raw index adjust a b =
     (if a = b then 1
      else case adjust of
             No_adjustment \<Rightarrow> raw a b
           | Bonferroni \<Rightarrow> bonferroni (length index * (length index - 1) div 2) (raw a b))"

text \<open>The pairs \<open>(i, j)\<close> with \<open>i < j\<close> of a list of bins, in the order of the two loops.\<close>

definition index_pairs :: "'a list \<Rightarrow> ('a \<times> 'a) list" where
  "index_pairs index =
     concat (map (\<lambda>i. map (\<lambda>j. (index ! i, index ! j)) [Suc i..<length index])
                 [0..<length index])"

text \<open>
  A row of a post-hoc table: the pair, its p-value, the Yes/No column where the
  table has one, and the effect-size cell. \<open>delta_calls\<close> lists the pairs for which
  the script called a Cliff's delta function, in the order of the calls.
\<close>

datatype effect_size = Delta rat | Not_significant

record comparison =
  comparison_pair :: "quintile \<times> quintile"
  comparison_p_value :: rat
  comparison_significant :: "bool option"
  comparison_effect :: effect_size

record feature_report =
  kruskal_result :: "rat \<times> rat"
  posthoc_table :: "comparison list option"
  delta_calls :: "(quintile \<times> quintile) list"

text \<open>Python's \<open>round(x, ndigits)\<close> on exact values: to the nearest, a tie to the even digit.\<close>

definition py_round :: "rat \<Rightarrow> nat \<Rightarrow> rat" where
  "py_round x ndigits =
     (let y = x * 10 ^ ndigits;
          f = \<lfloor>y\<rfloor>;
          r = y - of_int f
      in of_int (if r < 1 / 2 then f else if 1 / 2 < r then f + 1
                 else if even f then f else f + 1) / 10 ^ ndigits)"

subsection \<open>Statistical\_analysis\_HighGasUsed.py and Statistical\_analysis\_LowGasUsed.py\<close>

text \<open>
  \<open>perform_statistical_analysis\<close>, the body of the loop over the features (lines 106 to
  202 of the first file, 156 to 242 of the second, which are the same statements).
  \<open>posthoc_dunn\<close> is called with the frame and no \<open>p_adjust\<close>; its index holds the bins
  that occur. The numbers go into the table as they are: cutting them to a fixed
  number of decimals for print is not modelled.
\<close>

fun comparisons_HighGasUsed ::
  "(quintile \<Rightarrow> rat list) \<Rightarrow> (quintile \<Rightarrow> quintile \<Rightarrow> rat) \<Rightarrow> (quintile \<times> quintile) list
     \<Rightarrow> error + (comparison list \<times> (quintile \<times> quintile) list)" where
  "comparisons_HighGasUsed grp posthoc [] = Inr ([], [])"
| "comparisons_HighGasUsed grp posthoc ((a, b) # ps) =
     (let p_val = posthoc a b
      in if p_val < 5 / 100 then
           (case cliffs_delta (grp a) (grp b) of
              Inl e \<Rightarrow> Inl e
            | Inr delta \<Rightarrow>
                (case comparisons_HighGasUsed grp posthoc ps of
                   Inl e \<Rightarrow> Inl e
                 | Inr (rows, calls) \<Rightarrow>
                     Inr (\<lparr>comparison_pair = (a, b), comparison_p_value = p_val,
                           comparison_significant = None,
                           comparison_effect = Delta delta\<rparr> # rows, (a, b) # calls)))
         else
           (case comparisons_HighGasUsed grp posthoc ps of
              Inl e \<Rightarrow> Inl e
            | Inr (rows, calls) \<Rightarrow>
                Inr (\<lparr>comparison_pair = (a, b), comparison_p_value = p_val,
                      comparison_significant = None,
                      comparison_effect = Not_significant\<rparr> # rows, calls)))"

definition perform_statistical_analysis ::
  "(rat list list \<Rightarrow> rat \<times> rat) \<Rightarrow> ((quintile \<Rightarrow> rat list) \<Rightarrow> quintile \<Rightarrow> quintile \<Rightarrow> rat)
     \<Rightarrow> merged_row list \<Rightarrow> (block_row \<Rightarrow> rat option) \<Rightarrow> error + feature_report" where
  "perform_statistical_analysis kruskal dunn_p combined_data feature =
     (case qcut (map (\<lambda>m. feature (fst m)) combined_data) of
        Inl e \<Rightarrow> Inl e
      | Inr cats \<Rightarrow>
          (let grp = group_latency combined_data cats;
               result = kruskal (map grp labels)
           in if snd result < 5 / 100 then
                (let index = observed cats;
                     posthoc = posthoc_dunn (dunn_p grp) index No_adjustment
                 in case comparisons_HighGasUsed grp posthoc (index_pairs index) of
                      Inl e \<Rightarrow> Inl e
                    | Inr (rows, calls) \<Rightarrow>
                        Inr \<lparr>kruskal_result = result, posthoc_table = Some rows,
                             delta_calls = calls\<rparr>)
              else Inr \<lparr>kruskal_result = result, posthoc_table = None, delta_calls = []\<rparr>))"

subsection \<open>Latency\_addition+selection\_analysis\_Phase1.py\<close>

text \<open>
  \<open>produce_posthoc_cliffs_table\<close>, lines 153 to 195. The five groups are handed to
  \<open>posthoc_dunn\<close> with \<open>p_adjust='bonferroni'\<close>. For every pair of labels the delta of
  the package is computed first; the cell shows it, rounded, when the p-value is
  below 0.05 and \<open>Not significant\<close> otherwise. \<open>get_group\<close> raises \<open>KeyError\<close> for a bin
  without rows.
\<close>

fun comparisons_Phase1 ::
  "(rat list \<Rightarrow> rat list \<Rightarrow> rat \<times> string) \<Rightarrow> (quintile \<Rightarrow> rat list)
     \<Rightarrow> (quintile \<Rightarrow> quintile \<Rightarrow> rat) \<Rightarrow> (quintile \<times> quintile) list
     \<Rightarrow> error + (comparison list \<times> (quintile \<times> quintile) list)" where
  "comparisons_Phase1 cliffs_delta_pkg grp posthoc_results [] = Inr ([], [])"
| "comparisons_Phase1 cliffs_delta_pkg grp posthoc_results ((g1, g2) # ps) =
     (let p_value = posthoc_results g1 g2
      in if grp g1 = [] \<or> grp g2 = [] then Inl KeyError
         else
           (let d = fst (cliffs_delta_pkg (grp g1) (grp g2));
                is_diff = (p_value < 5 / 100);
                delta_str = (if p_value < 5 / 100 then Delta (py_round d 2)
                             else Not_significant)
            in case comparisons_Phase1 cliffs_delta_pkg grp posthoc_results ps of
                 Inl e \<Rightarrow> Inl e
               | Inr (rows, calls) \<Rightarrow>
                   Inr (\<lparr>comparison_pair = (g1, g2),
                         comparison_p_value = py_round p_value 4,
                         comparison_significant = Some is_diff,
                         comparison_effect = delta_str\<rparr> # rows, (g1, g2) # calls)))"

definition produce_posthoc_cliffs_table ::
  "((quintile \<Rightarrow> rat list) \<Rightarrow> quintile \<Rightarrow> quintile \<Rightarrow> rat)
     \<Rightarrow> (rat list \<Rightarrow> rat list \<Rightarrow> rat \<times> string)
     \<Rightarrow> merged_row list \<Rightarrow> (block_row \<Rightarrow> rat option)
     \<Rightarrow> error + (comparison list \<times> (quintile \<times> quintile) list)" where
  "produce_posthoc_cliffs_table dunn_p cliffs_delta_pkg df factor_col =
     (case qcut (map (\<lambda>m. factor_col (fst m)) df) of
        Inl e \<Rightarrow> Inl e
      | Inr cats \<Rightarrow>
          (let grp = group_latency df cats;
               posthoc_results = posthoc_dunn (dunn_p grp) labels Bonferroni
           in comparisons_Phase1 cliffs_delta_pkg grp posthoc_results (index_pairs labels)))"

subsection \<open>Latency\_breach\_penalty\_analysis\_Phase2.py\<close>

text \<open>
  \<open>analyze_factor\<close>, lines 131 to 211, without the summary table. \<open>groupby\<close> with
  \<open>observed=False\<close> yields the five groups, so that the test \<open>len(groups) < 5\<close> is
  false. The frame handed to \<open>posthoc_dunn\<close> holds the bins that occur; looking up a
  label that is not in the result raises \<open>KeyError\<close>. Every row carries the delta of
  the package and a Yes/No column.
\<close>

fun comparisons_Phase2 ::
  "(rat list \<Rightarrow> rat list \<Rightarrow> rat \<times> string) \<Rightarrow> (quintile \<Rightarrow> rat list) \<Rightarrow> quintile list
     \<Rightarrow> (quintile \<Rightarrow> quintile \<Rightarrow> rat) \<Rightarrow> (quintile \<times> quintile) list
     \<Rightarrow> error + (comparison list \<times> (quintile \<times> quintile) list)" where
  "comparisons_Phase2 cliffs_delta_pkg grp index posthoc_mat [] = Inr ([], [])"
| "comparisons_Phase2 cliffs_delta_pkg grp index posthoc_mat ((q_i, q_j) # ps) =
     (if q_i \<notin> set index \<or> q_j \<notin> set index then Inl KeyError
      else
        (let pval_ij = posthoc_mat q_i q_j;
             d_val = fst (cliffs_delta_pkg (grp q_i) (grp q_j))
         in case comparisons_Phase2 cliffs_delta_pkg grp index posthoc_mat ps of
              Inl e \<Rightarrow> Inl e
            | Inr (rows, calls) \<Rightarrow>
                Inr (\<lparr>comparison_pair = (q_i, q_j),
                      comparison_p_value = py_round pval_ij 5,
                      comparison_significant = Some (pval_ij < 5 / 100),
                      comparison_effect = Delta (py_round d_val 3)\<rparr> # rows,
                     (q_i, q_j) # calls)))"

definition analyze_factor ::
  "(rat list list \<Rightarrow> rat \<times> rat) \<Rightarrow> ((quintile \<Rightarrow> rat list) \<Rightarrow> quintile \<Rightarrow> quintile \<Rightarrow> rat)
     \<Rightarrow> (rat list \<Rightarrow> rat list \<Rightarrow> rat \<times> string)
     \<Rightarrow> merged_row list \<Rightarrow> (block_row \<Rightarrow> rat option) \<Rightarrow> error + feature_report" where
  "analyze_factor kruskal dunn_p cliffs_delta_pkg df factor_col =
     (case qcut (map (\<lambda>m. factor_col (fst m)) df) of
        Inl e \<Rightarrow> Inl e
      | Inr cats \<Rightarrow>
          (let grp = group_latency df cats;
               kw = kruskal (map grp labels)
           in if snd kw < 5 / 100 then
                (let index = observed cats;
                     posthoc_mat = posthoc_dunn (dunn_p grp) index Bonferroni
                 in case comparisons_Phase2 cliffs_delta_pkg grp index posthoc_mat
                           (index_pairs labels) of
                      Inl e \<Rightarrow> Inl e
                    | Inr (rows, calls) \<Rightarrow>
                        Inr \<lparr>kruskal_result = kw, posthoc_table = Some rows,
                             delta_calls = calls\<rparr>)
              else Inr \<lparr>kruskal_result = kw, posthoc_table = None, delta_calls = []\<rparr>))"

subsection \<open>Latency\_analysis\_each\_function.py\<close>

text \<open>
  The script prints its results. \<open>perform_kruskal_and_summary\<close> (lines 131 to 142)
  tests the groups of the labels in the order in which they occur and prints the
  result and one of two sentences; \<open>perform_dunn_posthoc\<close> (lines 145 to 148) prints
  the matrix of \<open>posthoc_dunn\<close> with \<open>p_adjust='bonferroni'\<close>. The main part (lines 159
  to 170, and again 174 to 185) bins the three covariates and then calls the two
  functions one after the other for each of them.
\<close>

datatype printed =
    Kruskal_Wallis_test rat rat
  | Significant_differences_detected
  | No_significant_differences_detected
  | Posthoc_Dunn_Test "(quintile \<times> quintile \<times> rat) list"

definition perform_kruskal_and_summary ::
  "(rat list list \<Rightarrow> rat \<times> rat) \<Rightarrow> merged_row list \<Rightarrow> quintile option list
     \<Rightarrow> printed list \<times> (rat \<times> rat)" where
  "perform_kruskal_and_summary kruskal combined_data group_column =
     (let groups = List.map_filter id (unique group_column);
          group_data = map (group_latency combined_data group_column) groups;
          kruskal_test = kruskal group_data
      in ([Kruskal_Wallis_test (fst kruskal_test) (snd kruskal_test),
           (if snd kruskal_test < 5 / 100 then Significant_differences_detected
            else No_significant_differences_detected)],
          kruskal_test))"

definition perform_dunn_posthoc ::
  "((quintile \<Rightarrow> rat list) \<Rightarrow> quintile \<Rightarrow> quintile \<Rightarrow> rat) \<Rightarrow> merged_row list
     \<Rightarrow> quintile option list \<Rightarrow> printed list" where
  "perform_dunn_posthoc dunn_p combined_data group_column =
     (let index = observed group_column;
          posthoc_results =
            posthoc_dunn (dunn_p (group_latency combined_data group_column)) index Bonferroni
      in [Posthoc_Dunn_Test
            (concat (map (\<lambda>a. map (\<lambda>b. (a, b, posthoc_results a b)) index) index))])"

definition analyze_each_function ::
  "(rat list list \<Rightarrow> rat \<times> rat) \<Rightarrow> ((quintile \<Rightarrow> rat list) \<Rightarrow> quintile \<Rightarrow> quintile \<Rightarrow> rat)
     \<Rightarrow> merged_row list \<Rightarrow> error + printed list" where
  "analyze_each_function kruskal dunn_p df =
     (if df = [] then Inr []
      else
        case qcut (map (\<lambda>m. Gas_Price (fst m)) df) of
          Inl e \<Rightarrow> Inl e
        | Inr gas_price_quintile \<Rightarrow>
           (case qcut (map (\<lambda>m. Block_Size (fst m)) df) of
              Inl e \<Rightarrow> Inl e
            | Inr block_size_quintile \<Rightarrow>
               (case qcut (map (\<lambda>m. Transaction_Count (fst m)) df) of
                  Inl e \<Rightarrow> Inl e
                | Inr transaction_count_quintile \<Rightarrow>
                    Inr (concat (map (\<lambda>group_column.
                                        fst (perform_kruskal_and_summary kruskal df group_column)
                                        @ perform_dunn_posthoc dunn_p df group_column)
                                     [gas_price_quintile, block_size_quintile,
                                      transaction_count_quintile])))))"

section \<open>Rows with and without a join partner\<close>




section \<open>The group of a latency row\<close>

text \<open>
  The key under which the index-based Loader groups a row: the iteration with the
  user index when the file has a \<open>UserIndex\<close> column (\<open>user\<close>), the iteration alone when
  it has not. A row with a missing key cell has no group.
\<close>

definition group_key :: "bool \<Rightarrow> latency_row \<Rightarrow> (int \<times> int option) option" where
  "group_key user r =
     (case Iteration r of
        None \<Rightarrow> None
      | Some i \<Rightarrow> (if user then (case UserIndex r of None \<Rightarrow> None | Some u \<Rightarrow> Some (i, Some u))
                   else Some (i, None)))"

section \<open>Sample inputs\<close>

text \<open>
  Small tables on which the definitions above are run below: a block row and a
  latency row without a missing cell, a frame of five records whose covariates and
  latencies are \<open>1\<close> to \<open>5\<close>, and a frame of fifteen records whose covariates and
  latencies are \<open>1\<close> to \<open>15\<close>, three to a bin.
\<close>

definition sample_block :: "rat \<Rightarrow> string \<Rightarrow> block_row" where
  "sample_block v h = \<lparr>Gas_Price = Some v, Block_Size = Some v, Transaction_Count = Some v,
                        Block_Transaction_Hash = Some h\<rparr>"

definition sample_latency :: "rat \<Rightarrow> string \<Rightarrow> latency_row" where
  "sample_latency v h = \<lparr>Latency = Some v, Transaction_Hash = Some h, Iteration = None,
                          UserIndex = None\<rparr>"

definition sample_indexed :: "rat option \<Rightarrow> int \<Rightarrow> int \<Rightarrow> latency_row" where
  "sample_indexed v i u = \<lparr>Latency = v, Transaction_Hash = None, Iteration = Some i,
                            UserIndex = Some u\<rparr>"

definition sample_file :: "bool \<Rightarrow> bool \<Rightarrow> bool \<Rightarrow> latency_row list \<Rightarrow> latency_file" where
  "sample_file h i u rows = \<lparr>has_latency_column = True, has_Transaction_Hash = h,
                             has_Iteration = i, has_UserIndex = u, file_rows = rows\<rparr>"

definition sample_frame :: "merged_row list" where
  "sample_frame = map (\<lambda>(v, h). (sample_block v h, sample_latency v h))
                      [(1, ''a''), (2, ''b''), (3, ''c''), (4, ''d''), (5, ''e'')]"

definition sample_frame_15 :: "merged_row list" where
  "sample_frame_15 = map (\<lambda>(v, h). (sample_block v h, sample_latency v h))
                         [(1, ''a''), (2, ''b''), (3, ''c''), (4, ''d''), (5, ''e''),
                          (6, ''f''), (7, ''g''), (8, ''h''), (9, ''i''), (10, ''j''),
                          (11, ''k''), (12, ''l''), (13, ''m''), (14, ''n''), (15, ''o'')]"

text \<open>
  The library tests on the sample frames. The statistics are computed from the
  groups as the libraries compute them:
  \<^item> a value's rank among the pooled values is the mean of the places that it and its
    equals take (\<open>rankdata\<close>); the sum of \<open>t^3 - t\<close> over the runs of \<open>t\<close> equal values is
    the correction for ties;
  \<^item> \<open>scipy.stats.kruskal\<close>: with \<open>n\<close> pooled values and the rank sum \<open>R\<close> of each group
    of size \<open>m\<close>, \<open>H = (12 / (n (n + 1)) * sum (R^2 / m) - 3 (n + 1)) / (1 - ties / (n^3 - n))\<close>,
    and the p-value is \<open>chi2.sf(H, k - 1)\<close> for \<open>k\<close> groups;
  \<^item> \<open>scikit_posthocs.posthoc_dunn\<close>: for two groups of sizes \<open>m1\<close> and \<open>m2\<close> whose mean
    ranks differ by \<open>d\<close>, \<open>z^2 = d^2 / ((n (n + 1) / 12 - ties / (12 (n - 1))) * (1/m1 + 1/m2))\<close>,
    and the p-value is \<open>2 * norm.sf(|z|)\<close>.
  The two distribution functions are tabulated, to ten decimals, at the arguments
  that the two sample frames lead to: \<open>chi2.sf(H, 4)\<close> at \<open>H = 4\<close> and \<open>H = 27/2\<close>, and
  \<open>2 * norm.sf(|z|)\<close> at eight values of \<open>z^2\<close>. \<open>sample_kruskal\<close> and \<open>sample_dunn\<close> are
  the library's tests on these frames; at another argument they give the p-value \<open>1\<close>
  and stand for nothing.
\<close>

definition pooled_rank :: "rat list \<Rightarrow> rat \<Rightarrow> rat" where
  "pooled_rank pooled x =
     of_nat (length (filter (\<lambda>y. y < x) pooled))
     + (of_nat (length (filter (\<lambda>y. y = x) pooled)) + 1) / 2"

definition tie_sum :: "rat list \<Rightarrow> rat" where
  "tie_sum pooled =
     sum_list (map (\<lambda>v. let t = of_nat (length (filter (\<lambda>y. y = v) pooled)) in t ^ 3 - t)
                   (remdups pooled))"

definition rank_sum :: "rat list \<Rightarrow> rat list \<Rightarrow> rat" where
  "rank_sum pooled g = sum_list (map (pooled_rank pooled) g)"

definition kruskal_H :: "rat list list \<Rightarrow> rat" where
  "kruskal_H samples =
     (let pooled = concat samples;
          n = of_nat (length pooled);
          ssbn = sum_list (map (\<lambda>g. (rank_sum pooled g) ^ 2 / of_nat (length g)) samples);
          h = 12 / (n * (n + 1)) * ssbn - 3 * (n + 1)
      in h / (1 - tie_sum pooled / (n ^ 3 - n)))"

definition dunn_z_squared :: "rat list list \<Rightarrow> rat list \<Rightarrow> rat list \<Rightarrow> rat" where
  "dunn_z_squared samples g1 g2 =
     (let pooled = concat samples;
          n = of_nat (length pooled);
          d = rank_sum pooled g1 / of_nat (length g1) - rank_sum pooled g2 / of_nat (length g2);
          a = n * (n + 1) / 12 - tie_sum pooled / (12 * (n - 1));
          b = 1 / of_nat (length g1) + 1 / of_nat (length g2)
      in d ^ 2 / (a * b))"

definition chi2_sf_4 :: "(rat \<times> rat) list" where
  "chi2_sf_4 = [(4, 4060058497 / 10 ^ 10), (27 / 2, 90743171 / 10 ^ 10)]"

definition two_sided_normal :: "(rat \<times> rat) list" where
  "two_sided_normal =
     [(1 / 5, 6547208460 / 10 ^ 10), (4 / 5, 3710933695 / 10 ^ 10),
      (9 / 5, 1797124949 / 10 ^ 10), (16 / 5, 736382701 / 10 ^ 10),
      (27 / 40, 4113137918 / 10 ^ 10), (27 / 10, 1003482465 / 10 ^ 10),
      (243 / 40, 137108301 / 10 ^ 10), (54 / 5, 10150009 / 10 ^ 10)]"

definition tabulated :: "(rat \<times> rat) list \<Rightarrow> rat \<Rightarrow> rat" where
  "tabulated table x = (case map_of table x of None \<Rightarrow> 1 | Some p \<Rightarrow> p)"

definition sample_kruskal :: "rat list list \<Rightarrow> rat \<times> rat" where
  "sample_kruskal samples = (let h = kruskal_H samples in (h, tabulated chi2_sf_4 h))"

definition sample_dunn :: "(quintile \<Rightarrow> rat list) \<Rightarrow> quintile \<Rightarrow> quintile \<Rightarrow> rat" where
  "sample_dunn grp a b =
     tabulated two_sided_normal
       (dunn_z_squared (filter (\<lambda>g. g \<noteq> []) (map grp labels)) (grp a) (grp b))"

text \<open>
  The function of the \<open>cliffs_delta\<close> package, as far as the scripts use it: the first
  component is the delta; the second, the verbal size, is never read.
\<close>

definition sign_delta :: "rat list \<Rightarrow> rat list \<Rightarrow> rat \<times> string" where
  "sign_delta A B = (case cliffs_delta A B of Inl e \<Rightarrow> (0, ''negligible'')
                                            | Inr d \<Rightarrow> (d, ''large''))"

section \<open>Properties of Cliff's delta\<close>

lemma finite_index_pairs:
  "finite {(i, j). i < (m::nat) \<and> j < (n::nat) \<and> P i j}"
  by (rule finite_subset [of _ "{..<m} \<times> {..<n}"]) auto

lemma length_filter_card:
  "length (filter P xs) = card {j. j < length xs \<and> P (xs ! j)}"
  by (simp add: length_filter_conv_card)

lemma card_pairs_Cons:
  fixes P :: "nat \<Rightarrow> nat \<Rightarrow> bool"
  shows "card {(i, j). i < Suc m \<and> j < n \<and> P i j}
     = card {j. j < n \<and> P 0 j} + card {(i, j). i < m \<and> j < n \<and> P (Suc i) j}"
proof -
  let ?S = "{(i, j). i < Suc m \<and> j < n \<and> P i j}"
  let ?Z = "(\<lambda>j. (0::nat, j)) ` {j. j < n \<and> P 0 j}"
  let ?R = "(\<lambda>(i, j). (Suc i, j)) ` {(i, j). i < m \<and> j < n \<and> P (Suc i) j}"
  have split: "?S = ?Z \<union> ?R"
  proof (rule set_eqI)
    fix p :: "nat \<times> nat"
    obtain i j where p: "p = (i, j)" by (cases p)
    show "p \<in> ?S \<longleftrightarrow> p \<in> ?Z \<union> ?R"
      unfolding p by (cases i) (auto simp: image_iff)
  qed
  have disj: "?Z \<inter> ?R = {}" by auto
  have fz: "finite ?Z" by simp
  have fr: "finite ?R" by (rule finite_imageI) (rule finite_index_pairs)
  have cz: "card ?Z = card {j. j < n \<and> P 0 j}"
    by (rule card_image) (simp add: inj_on_def)
  have cr: "card ?R = card {(i, j). i < m \<and> j < n \<and> P (Suc i) j}"
    by (rule card_image) (auto simp: inj_on_def)
  show ?thesis
    unfolding split using card_Un_disjoint [OF fz fr disj] cz cr by simp
qed

lemma count_pairs_card:
  "length (filter (\<lambda>(x1, x2). R x1 x2) (all_pairs A B))
     = card {(i, j). i < length A \<and> j < length B \<and> R (A ! i) (B ! j)}"
proof (induction A)
  case Nil
  show ?case by (simp add: all_pairs_def)
next
  case (Cons a A)
  have row: "length (filter (\<lambda>(x1, x2). R x1 x2) (map (\<lambda>x2. (a, x2)) B))
               = card {j. j < length B \<and> R a (B ! j)}"
    by (simp add: filter_map o_def length_filter_card)
  have "length (filter (\<lambda>(x1, x2). R x1 x2) (all_pairs (a # A) B))
          = card {j. j < length B \<and> R a (B ! j)}
            + length (filter (\<lambda>(x1, x2). R x1 x2) (all_pairs A B))"
    using row by (simp add: all_pairs_def)
  also have "\<dots> = card {j. j < length B \<and> R a (B ! j)}
            + card {(i, j). i < length A \<and> j < length B \<and> R (A ! i) (B ! j)}"
    using Cons.IH by simp
  also have "\<dots> = card {(i, j). i < length (a # A) \<and> j < length B \<and> R ((a # A) ! i) (B ! j)}"
    using card_pairs_Cons [of "length A" "length B" "\<lambda>i j. R ((a # A) ! i) (B ! j)"]
    by simp
  finally show ?case .
qed

lemma n_concordant_card: "n_concordant A B = card (exceeding A B)"
  unfolding n_concordant_def exceeding_def
  using count_pairs_card [of "\<lambda>x1 x2. x1 > x2" A B] by simp

lemma n_discordant_card: "n_discordant A B = card (exceeded A B)"
  unfolding n_discordant_def exceeded_def
  using count_pairs_card [of "\<lambda>x1 x2. x1 < x2" A B] by simp

lemma length_all_pairs: "length (all_pairs A B) = length A * length B"
  by (induction A) (simp_all add: all_pairs_def)

lemma length_filter_exclusive:
  "(\<And>x. \<not> (P x \<and> Q x)) \<Longrightarrow>
     length (filter P xs) + length (filter Q xs) \<le> length xs"
proof (induction xs)
  case Nil
  show ?case by simp
next
  case (Cons x xs)
  from Cons.prems have "\<not> (P x \<and> Q x)" by blast
  with Cons.IH [OF Cons.prems] show ?case by auto
qed

lemma concordant_discordant_le:
  "n_concordant A B + n_discordant A B \<le> length A * length B"
proof -
  have "n_concordant A B + n_discordant A B \<le> length (all_pairs A B)"
    unfolding n_concordant_def n_discordant_def
    by (rule length_filter_exclusive) auto
  then show ?thesis by (simp add: length_all_pairs)
qed

text \<open>
  Claim C5. For non-empty groups \<open>A\<close> and \<open>B\<close>, \<open>cliffs_delta\<close> returns (it does not
  raise) the number of positions of the full Cartesian product at which the value of
  \<open>A\<close> is the larger one, minus the number at which it is the smaller one, divided by
  \<open>|A| * |B|\<close>. The value lies in the closed interval from \<open>-1\<close> to \<open>1\<close>, and it is
  positive exactly when the values of \<open>A\<close> exceed those of \<open>B\<close> more often than they
  are exceeded.
\<close>

theorem cliffs_delta_cartesian:
  assumes "A \<noteq> []" and "B \<noteq> []"
  shows "\<exists>d. cliffs_delta A B = Inr d
           \<and> d = (of_nat (card (exceeding A B)) - of_nat (card (exceeded A B)))
                   / of_nat (length A * length B)
           \<and> - 1 \<le> d \<and> d \<le> 1
           \<and> (0 < d \<longleftrightarrow> card (exceeded A B) < card (exceeding A B))"
proof -
  define c where "c = n_concordant A B"
  define e where "e = n_discordant A B"
  define n where "n = length A * length B"
  define d :: rat where "d = (of_nat c - of_nat e) / of_nat n"
  from assms have npos: "0 < n" by (simp add: n_def)
  then have nrat: "(0::rat) < of_nat n" by simp
  have le: "c + e \<le> n"
    unfolding c_def e_def n_def by (rule concordant_discordant_le)
  have ret: "cliffs_delta A B = Inr d"
    using npos by (simp add: cliffs_delta_def d_def c_def e_def n_def)
  have formula: "d = (of_nat (card (exceeding A B)) - of_nat (card (exceeded A B)))
                       / of_nat (length A * length B)"
    by (simp add: d_def c_def e_def n_def n_concordant_card n_discordant_card)
  have "(of_nat c :: rat) \<le> of_nat n" and "(of_nat e :: rat) \<le> of_nat n"
    using le by simp_all
  then have up: "(of_nat c - of_nat e :: rat) \<le> of_nat n"
    and lo: "- (of_nat n :: rat) \<le> of_nat c - of_nat e"
    by simp_all
  have d_le: "d \<le> 1"
    unfolding d_def using up nrat by (simp add: divide_le_eq)
  have d_ge: "- 1 \<le> d"
    unfolding d_def using lo nrat by (simp add: le_divide_eq)
  have "0 < d \<longleftrightarrow> (of_nat e :: rat) < of_nat c"
    unfolding d_def using nrat by (simp add: zero_less_divide_iff)
  then have sign: "0 < d \<longleftrightarrow> card (exceeded A B) < card (exceeding A B)"
    by (simp add: c_def e_def n_concordant_card n_discordant_card)
  from ret formula d_ge d_le sign show ?thesis by blast
qed

theorem cliffs_delta_cartesian_witness:
  "[3, 4] \<noteq> ([] :: rat list) \<and> [2] \<noteq> ([] :: rat list)
     \<and> cliffs_delta [3, 4] [2] = Inr 1"
  using cliffs_delta_cartesian [of "[3, 4]" "[2]"]
  by (simp add: cliffs_delta_def n_concordant_def n_discordant_def all_pairs_def)

section \<open>Index-based merge\<close>

lemma nan_rows_incomplete:
  "\<not> block_complete nan_block" "\<not> index_latency_complete user_col nan_latency"
  by (simp_all add: block_complete_def nan_block_def index_latency_complete_def nan_latency_def)

lemma concat_axis1_complete:
  "list_all block_complete gas \<Longrightarrow> list_all (index_latency_complete user_col) lat \<Longrightarrow>
     filter (index_complete user_col) (concat_axis1 gas lat) = zip gas lat"
proof (induction gas lat rule: concat_axis1.induct)
  case 1
  show ?case by simp
next
  case (2 g gs)
  from "2.prems" have "list_all block_complete gs" by simp
  from "2.IH" [OF this] show ?case
    by (simp add: index_complete_def nan_rows_incomplete)
next
  case (3 l ls)
  from "3.prems" have "list_all (index_latency_complete user_col) ls" by simp
  with "3.IH" show ?case
    by (simp add: index_complete_def nan_rows_incomplete)
next
  case (4 g gs l ls)
  then show ?case by (simp add: index_complete_def)
qed

text \<open>
  Claim C10. In index-based mode, when the loaded block table and the loaded latency
  table are both non-empty and neither holds a missing value, \<open>process_service_data\<close>
  returns (no error is raised) the records that pair the i-th block row with the i-th
  latency row, as many as the shorter table has rows; the other rows of the longer
  table are not in the result.
\<close>

theorem index_based_merge_min_rows:
  assumes "all_gas_data block_files = gas"
    and "all_latency_data True use_transaction_hash data_files = lat"
    and "gas \<noteq> []" and "lat \<noteq> []"
    and "list_all block_complete gas"
    and "list_all (index_latency_complete
                     (latency_has_UserIndex True use_transaction_hash data_files)) lat"
  shows "process_service_data data_files block_files True use_transaction_hash = zip gas lat
         \<and> length (process_service_data data_files block_files True use_transaction_hash)
             = min (length gas) (length lat)
         \<and> (\<forall>i < min (length gas) (length lat).
               process_service_data data_files block_files True use_transaction_hash ! i
                 = (gas ! i, lat ! i))"
proof -
  have "process_service_data data_files block_files True use_transaction_hash = zip gas lat"
    using assms by (simp add: process_service_data_def concat_axis1_complete)
  then show ?thesis by simp
qed

theorem index_based_merge_min_rows_witness:
  "all_gas_data [Some [sample_block 1024 ''a'', sample_block 2048 ''b''], None]
     = [sample_block 1024 ''a''\<lparr>Block_Size := Some 1\<rparr>, sample_block 2048 ''b''\<lparr>Block_Size := Some 2\<rparr>]
   \<and> all_latency_data True False
         [Some (sample_file False True True
                  [sample_indexed (Some 9) 2 1, sample_indexed (Some 7) 1 1,
                   sample_indexed (Some 8) 1 2])]
     = [sample_indexed (Some 7) 1 1, sample_indexed (Some 8) 1 2, sample_indexed (Some 9) 2 1]
   \<and> process_service_data
         [Some (sample_file False True True
                  [sample_indexed (Some 9) 2 1, sample_indexed (Some 7) 1 1,
                   sample_indexed (Some 8) 1 2])]
         [Some [sample_block 1024 ''a'', sample_block 2048 ''b''], None] True False
     = [(sample_block 1024 ''a''\<lparr>Block_Size := Some 1\<rparr>, sample_indexed (Some 7) 1 1),
        (sample_block 2048 ''b''\<lparr>Block_Size := Some 2\<rparr>, sample_indexed (Some 8) 1 2)]"
proof -
  let ?B = "[Some [sample_block 1024 ''a'', sample_block 2048 ''b''], None]"
  let ?D = "[Some (sample_file False True True
                     [sample_indexed (Some 9) 2 1, sample_indexed (Some 7) 1 1,
                      sample_indexed (Some 8) 1 2])]"
  let ?gas = "[sample_block 1024 ''a''\<lparr>Block_Size := Some 1\<rparr>,
               sample_block 2048 ''b''\<lparr>Block_Size := Some 2\<rparr>]"
  let ?lat = "[sample_indexed (Some 7) 1 1, sample_indexed (Some 8) 1 2,
               sample_indexed (Some 9) 2 1]"
  have g: "all_gas_data ?B = ?gas" by code_simp
  have l: "all_latency_data True False ?D = ?lat" by code_simp
  have gne: "?gas \<noteq> []" and lne: "?lat \<noteq> []" by simp_all
  have gc: "list_all block_complete ?gas" by code_simp
  have lc: "list_all (index_latency_complete (latency_has_UserIndex True False ?D)) ?lat"
    by code_simp
  from index_based_merge_min_rows [OF g l gne lne gc lc] g l show ?thesis by simp
qed

section \<open>The post-hoc tables\<close>

lemma comparisons_HighGasUsed_rows:
  "comparisons_HighGasUsed grp posthoc ps = Inr (rows, calls) \<Longrightarrow>
     map comparison_pair rows = ps
     \<and> calls = filter (\<lambda>(a, b). posthoc a b < 5 / 100) ps
     \<and> list_all (\<lambda>r. case comparison_pair r of (a, b) \<Rightarrow>
                    comparison_p_value r = posthoc a b
                    \<and> (if posthoc a b < 5 / 100
                        then \<exists>d. cliffs_delta (grp a) (grp b) = Inr d \<and> comparison_effect r = Delta d
                        else comparison_effect r = Not_significant)) rows"
proof (induction ps arbitrary: rows calls)
  case Nil
  then show ?case by simp
next
  case (Cons pr ps)
  obtain a b where pr: "pr = (a, b)" by (cases pr)
  from Cons.prems obtain rows' calls' where
    rest: "comparisons_HighGasUsed grp posthoc ps = Inr (rows', calls')"
    by (cases "comparisons_HighGasUsed grp posthoc ps")
       (auto simp: pr Let_def split: if_splits sum.splits)
  note IH = Cons.IH [OF rest]
  show ?case
  proof (cases "posthoc a b < 5 / 100")
    case True
    with Cons.prems rest obtain d where
      d: "cliffs_delta (grp a) (grp b) = Inr d"
      and rows: "rows = \<lparr>comparison_pair = (a, b), comparison_p_value = posthoc a b,
                   comparison_significant = None, comparison_effect = Delta d\<rparr> # rows'"
      and calls: "calls = (a, b) # calls'"
      by (cases "cliffs_delta (grp a) (grp b)") (auto simp: pr Let_def)
    show ?thesis using IH True d by (simp add: rows calls pr)
  next
    case False
    with Cons.prems rest have
      rows: "rows = \<lparr>comparison_pair = (a, b), comparison_p_value = posthoc a b,
                   comparison_significant = None, comparison_effect = Not_significant\<rparr> # rows'"
      and calls: "calls = calls'"
      by (auto simp: pr Let_def)
    show ?thesis using IH False by (simp add: rows calls pr)
  qed
qed

lemma comparisons_Phase1_rows:
  "comparisons_Phase1 pkg grp posthoc ps = Inr (rows, calls) \<Longrightarrow>
     map comparison_pair rows = ps \<and> calls = ps
     \<and> list_all (\<lambda>r. case comparison_pair r of (a, b) \<Rightarrow>
                    comparison_p_value r = py_round (posthoc a b) 4
                    \<and> comparison_significant r = Some (posthoc a b < 5 / 100)
                    \<and> comparison_effect r =
                        (if posthoc a b < 5 / 100
                         then Delta (py_round (fst (pkg (grp a) (grp b))) 2)
                         else Not_significant)) rows"
proof (induction ps arbitrary: rows calls)
  case Nil
  then show ?case by simp
next
  case (Cons pr ps)
  obtain a b where pr: "pr = (a, b)" by (cases pr)
  from Cons.prems have ne: "\<not> (grp a = [] \<or> grp b = [])"
    by (auto simp: pr Let_def split: if_splits)
  from Cons.prems ne obtain rows' calls' where
    rest: "comparisons_Phase1 pkg grp posthoc ps = Inr (rows', calls')"
    by (cases "comparisons_Phase1 pkg grp posthoc ps") (auto simp: pr Let_def)
  note IH = Cons.IH [OF rest]
  from Cons.prems ne rest have
    rows: "rows = \<lparr>comparison_pair = (a, b), comparison_p_value = py_round (posthoc a b) 4,
                 comparison_significant = Some (posthoc a b < 5 / 100),
                 comparison_effect = (if posthoc a b < 5 / 100
                                      then Delta (py_round (fst (pkg (grp a) (grp b))) 2)
                                      else Not_significant)\<rparr> # rows'"
    and calls: "calls = (a, b) # calls'"
    by (auto simp: pr Let_def)
  show ?case using IH by (simp add: rows calls pr)
qed

lemma comparisons_Phase2_rows:
  "comparisons_Phase2 pkg grp index posthoc ps = Inr (rows, calls) \<Longrightarrow>
     map comparison_pair rows = ps \<and> calls = ps
     \<and> list_all (\<lambda>r. case comparison_pair r of (a, b) \<Rightarrow>
                    comparison_p_value r = py_round (posthoc a b) 5
                    \<and> comparison_significant r = Some (posthoc a b < 5 / 100)
                    \<and> comparison_effect r = Delta (py_round (fst (pkg (grp a) (grp b))) 3)) rows"
proof (induction ps arbitrary: rows calls)
  case Nil
  then show ?case by simp
next
  case (Cons pr ps)
  obtain a b where pr: "pr = (a, b)" by (cases pr)
  from Cons.prems have ne: "\<not> (a \<notin> set index \<or> b \<notin> set index)"
    by (auto simp: pr Let_def split: if_splits)
  from Cons.prems ne obtain rows' calls' where
    rest: "comparisons_Phase2 pkg grp index posthoc ps = Inr (rows', calls')"
    by (cases "comparisons_Phase2 pkg grp index posthoc ps") (auto simp: pr Let_def)
  note IH = Cons.IH [OF rest]
  from Cons.prems ne rest have
    rows: "rows = \<lparr>comparison_pair = (a, b), comparison_p_value = py_round (posthoc a b) 5,
                 comparison_significant = Some (posthoc a b < 5 / 100),
                 comparison_effect = Delta (py_round (fst (pkg (grp a) (grp b))) 3)\<rparr> # rows'"
    and calls: "calls = (a, b) # calls'"
    by (auto simp: pr Let_def)
  show ?case using IH by (simp add: rows calls pr)
qed

lemma produce_posthoc_cliffs_table_rows:
  assumes "produce_posthoc_cliffs_table dunn_p pkg df factor_col = Inr (rows, calls)"
  shows "\<exists>cats. qcut (map (\<lambda>m. factor_col (fst m)) df) = Inr cats
           \<and> comparisons_Phase1 pkg (group_latency df cats)
                (posthoc_dunn (dunn_p (group_latency df cats)) labels Bonferroni)
                (index_pairs labels) = Inr (rows, calls)"
  using assms
  by (cases "qcut (map (\<lambda>m. factor_col (fst m)) df)")
     (simp_all add: produce_posthoc_cliffs_table_def Let_def)

lemma analyze_factor_rows:
  assumes "analyze_factor kruskal dunn_p pkg df factor_col = Inr rep"
    and "posthoc_table rep = Some rows"
  shows "\<exists>cats. qcut (map (\<lambda>m. factor_col (fst m)) df) = Inr cats
           \<and> snd (kruskal (map (group_latency df cats) labels)) < 5 / 100
           \<and> comparisons_Phase2 pkg (group_latency df cats) (observed cats)
                (posthoc_dunn (dunn_p (group_latency df cats)) (observed cats) Bonferroni)
                (index_pairs labels) = Inr (rows, delta_calls rep)"
proof (cases "qcut (map (\<lambda>m. factor_col (fst m)) df)")
  case (Inl e)
  with assms(1) show ?thesis by (simp add: analyze_factor_def)
next
  case (Inr cats)
  let ?grp = "group_latency df cats"
  let ?cmp = "comparisons_Phase2 pkg ?grp (observed cats)
                (posthoc_dunn (dunn_p ?grp) (observed cats) Bonferroni) (index_pairs labels)"
  have sig: "snd (kruskal (map ?grp labels)) < 5 / 100"
  proof (rule ccontr)
    assume "\<not> snd (kruskal (map ?grp labels)) < 5 / 100"
    with assms(1) Inr have "posthoc_table rep = None"
      by (auto simp: analyze_factor_def Let_def)
    with assms(2) show False by simp
  qed
  from assms(1) Inr sig obtain rows' calls' where
    c: "?cmp = Inr (rows', calls')"
    and rep: "rep = \<lparr>kruskal_result = kruskal (map ?grp labels), posthoc_table = Some rows',
                     delta_calls = calls'\<rparr>"
    by (cases ?cmp) (auto simp: analyze_factor_def Let_def)
  from rep assms(2) have "rows' = rows" "calls' = delta_calls rep" by simp_all
  with c Inr sig show ?thesis by simp
qed

lemma perform_statistical_analysis_rows:
  assumes "perform_statistical_analysis kruskal dunn_p df feature = Inr rep"
    and "posthoc_table rep = Some rows"
  shows "\<exists>cats. qcut (map (\<lambda>m. feature (fst m)) df) = Inr cats
           \<and> snd (kruskal (map (group_latency df cats) labels)) < 5 / 100
           \<and> comparisons_HighGasUsed (group_latency df cats)
                (posthoc_dunn (dunn_p (group_latency df cats)) (observed cats) No_adjustment)
                (index_pairs (observed cats)) = Inr (rows, delta_calls rep)"
proof (cases "qcut (map (\<lambda>m. feature (fst m)) df)")
  case (Inl e)
  with assms(1) show ?thesis by (simp add: perform_statistical_analysis_def)
next
  case (Inr cats)
  let ?grp = "group_latency df cats"
  let ?cmp = "comparisons_HighGasUsed ?grp
                (posthoc_dunn (dunn_p ?grp) (observed cats) No_adjustment)
                (index_pairs (observed cats))"
  have sig: "snd (kruskal (map ?grp labels)) < 5 / 100"
  proof (rule ccontr)
    assume "\<not> snd (kruskal (map ?grp labels)) < 5 / 100"
    with assms(1) Inr have "posthoc_table rep = None"
      by (auto simp: perform_statistical_analysis_def Let_def)
    with assms(2) show False by simp
  qed
  from assms(1) Inr sig obtain rows' calls' where
    c: "?cmp = Inr (rows', calls')"
    and rep: "rep = \<lparr>kruskal_result = kruskal (map ?grp labels), posthoc_table = Some rows',
                     delta_calls = calls'\<rparr>"
    by (cases ?cmp) (auto simp: perform_statistical_analysis_def Let_def)
  from rep assms(2) have "rows' = rows" "calls' = delta_calls rep" by simp_all
  with c Inr sig show ?thesis by simp
qed

text \<open>
  Claim C4, as the scripts have it, each script by itself. The corrected p-value of
  a pair is the value of \<open>posthoc_dunn\<close> with \<open>p_adjust='bonferroni'\<close>.
  \<^item> Phase 1 (\<open>produce_posthoc_cliffs_table\<close>) calls the delta function for every pair;
    the cell of a pair whose corrected p-value is not below 0.05 says
    \<open>Not significant\<close>, and the cell of a pair below 0.05 holds the rounded delta.
  \<^item> Phase 2 (\<open>analyze_factor\<close>), when it makes a post-hoc table, calls the delta
    function for every pair and writes the rounded delta into every row, beside a
    column that says whether the corrected p-value is below 0.05.
  \<^item> The two Statistical\_analysis scripts, when they make a post-hoc table, write
    \<open>Not significant\<close> and do not call \<open>cliffs_delta\<close> for every pair whose p-value is not
    below 0.05 before any correction, and whose corrected p-value, which is not
    smaller, is then not below 0.05 either.
\<close>

theorem effect_size_cell_by_script:
  "(produce_posthoc_cliffs_table dunn_one pkg_one df_one factor_one = Inr (rows_one, calls_one) \<longrightarrow>
      (\<exists>cats. qcut (map (\<lambda>m. factor_one (fst m)) df_one) = Inr cats
         \<and> map comparison_pair rows_one = index_pairs labels
         \<and> calls_one = index_pairs labels
         \<and> (\<forall>r \<in> set rows_one. case comparison_pair r of (a, b) \<Rightarrow>
               let p = posthoc_dunn (dunn_one (group_latency df_one cats)) labels Bonferroni a b
               in comparison_significant r = Some (p < 5 / 100)
                  \<and> comparison_effect r =
                      (if p < 5 / 100
                       then Delta (py_round (fst (pkg_one (group_latency df_one cats a)
                                                        (group_latency df_one cats b))) 2)
                       else Not_significant))))
   \<and> (analyze_factor kruskal_two dunn_two pkg_two df_two factor_two = Inr rep_two
        \<and> posthoc_table rep_two = Some rows_two \<longrightarrow>
      (\<exists>cats. qcut (map (\<lambda>m. factor_two (fst m)) df_two) = Inr cats
         \<and> map comparison_pair rows_two = index_pairs labels
         \<and> delta_calls rep_two = index_pairs labels
         \<and> (\<forall>r \<in> set rows_two. case comparison_pair r of (a, b) \<Rightarrow>
               let p = posthoc_dunn (dunn_two (group_latency df_two cats)) (observed cats)
                         Bonferroni a b
               in comparison_significant r = Some (p < 5 / 100)
                  \<and> comparison_effect r =
                      Delta (py_round (fst (pkg_two (group_latency df_two cats a)
                                                  (group_latency df_two cats b))) 3))))
   \<and> (perform_statistical_analysis kruskal_h dunn_h df_h feature = Inr rep_h
        \<and> posthoc_table rep_h = Some rows_h \<longrightarrow>
      (\<exists>cats. qcut (map (\<lambda>m. feature (fst m)) df_h) = Inr cats
         \<and> map comparison_pair rows_h = index_pairs (observed cats)
         \<and> (\<forall>r \<in> set rows_h. case comparison_pair r of (a, b) \<Rightarrow>
               \<not> dunn_h (group_latency df_h cats) a b < 5 / 100 \<longrightarrow>
                 comparison_effect r = Not_significant
                 \<and> (a, b) \<notin> set (delta_calls rep_h))))"
proof (intro conjI impI)
  assume "produce_posthoc_cliffs_table dunn_one pkg_one df_one factor_one = Inr (rows_one, calls_one)"
  from produce_posthoc_cliffs_table_rows [OF this] obtain cats where
    q: "qcut (map (\<lambda>m. factor_one (fst m)) df_one) = Inr cats"
    and c: "comparisons_Phase1 pkg_one (group_latency df_one cats)
                (posthoc_dunn (dunn_one (group_latency df_one cats)) labels Bonferroni)
                (index_pairs labels) = Inr (rows_one, calls_one)"
    by blast
  note R = comparisons_Phase1_rows [OF c]
  have "\<forall>r \<in> set rows_one. case comparison_pair r of (a, b) \<Rightarrow>
               let p = posthoc_dunn (dunn_one (group_latency df_one cats)) labels Bonferroni a b
               in comparison_significant r = Some (p < 5 / 100)
                  \<and> comparison_effect r =
                      (if p < 5 / 100
                       then Delta (py_round (fst (pkg_one (group_latency df_one cats a)
                                                        (group_latency df_one cats b))) 2)
                       else Not_significant)"
    using R by (auto simp: list_all_iff Let_def)
  with q R show "\<exists>cats. qcut (map (\<lambda>m. factor_one (fst m)) df_one) = Inr cats
         \<and> map comparison_pair rows_one = index_pairs labels
         \<and> calls_one = index_pairs labels
         \<and> (\<forall>r \<in> set rows_one. case comparison_pair r of (a, b) \<Rightarrow>
               let p = posthoc_dunn (dunn_one (group_latency df_one cats)) labels Bonferroni a b
               in comparison_significant r = Some (p < 5 / 100)
                  \<and> comparison_effect r =
                      (if p < 5 / 100
                       then Delta (py_round (fst (pkg_one (group_latency df_one cats a)
                                                        (group_latency df_one cats b))) 2)
                       else Not_significant))"
    by blast
next
  assume "analyze_factor kruskal_two dunn_two pkg_two df_two factor_two = Inr rep_two
            \<and> posthoc_table rep_two = Some rows_two"
  then have a: "analyze_factor kruskal_two dunn_two pkg_two df_two factor_two = Inr rep_two"
    and t: "posthoc_table rep_two = Some rows_two" by simp_all
  from analyze_factor_rows [OF a t] obtain cats where
    q: "qcut (map (\<lambda>m. factor_two (fst m)) df_two) = Inr cats"
    and c: "comparisons_Phase2 pkg_two (group_latency df_two cats) (observed cats)
                (posthoc_dunn (dunn_two (group_latency df_two cats)) (observed cats) Bonferroni)
                (index_pairs labels) = Inr (rows_two, delta_calls rep_two)"
    by blast
  note R = comparisons_Phase2_rows [OF c]
  have "\<forall>r \<in> set rows_two. case comparison_pair r of (a, b) \<Rightarrow>
               let p = posthoc_dunn (dunn_two (group_latency df_two cats)) (observed cats)
                         Bonferroni a b
               in comparison_significant r = Some (p < 5 / 100)
                  \<and> comparison_effect r =
                      Delta (py_round (fst (pkg_two (group_latency df_two cats a)
                                                  (group_latency df_two cats b))) 3)"
    using R by (auto simp: list_all_iff Let_def)
  with q R show "\<exists>cats. qcut (map (\<lambda>m. factor_two (fst m)) df_two) = Inr cats
         \<and> map comparison_pair rows_two = index_pairs labels
         \<and> delta_calls rep_two = index_pairs labels
         \<and> (\<forall>r \<in> set rows_two. case comparison_pair r of (a, b) \<Rightarrow>
               let p = posthoc_dunn (dunn_two (group_latency df_two cats)) (observed cats)
                         Bonferroni a b
               in comparison_significant r = Some (p < 5 / 100)
                  \<and> comparison_effect r =
                      Delta (py_round (fst (pkg_two (group_latency df_two cats a)
                                                  (group_latency df_two cats b))) 3))"
    by blast
next
  assume "perform_statistical_analysis kruskal_h dunn_h df_h feature = Inr rep_h
            \<and> posthoc_table rep_h = Some rows_h"
  then have a: "perform_statistical_analysis kruskal_h dunn_h df_h feature = Inr rep_h"
    and t: "posthoc_table rep_h = Some rows_h" by simp_all
  from perform_statistical_analysis_rows [OF a t] obtain cats where
    q: "qcut (map (\<lambda>m. feature (fst m)) df_h) = Inr cats"
    and c: "comparisons_HighGasUsed (group_latency df_h cats)
                (posthoc_dunn (dunn_h (group_latency df_h cats)) (observed cats) No_adjustment)
                (index_pairs (observed cats)) = Inr (rows_h, delta_calls rep_h)"
    by blast
  let ?P = "posthoc_dunn (dunn_h (group_latency df_h cats)) (observed cats) No_adjustment"
  note R = comparisons_HighGasUsed_rows [OF c]
  have "\<forall>r \<in> set rows_h. case comparison_pair r of (a, b) \<Rightarrow>
               \<not> dunn_h (group_latency df_h cats) a b < 5 / 100 \<longrightarrow>
                 comparison_effect r = Not_significant
                 \<and> (a, b) \<notin> set (delta_calls rep_h)"
  proof
    fix r assume r: "r \<in> set rows_h"
    obtain a b where ab: "comparison_pair r = (a, b)" by (cases "comparison_pair r")
    have P: "\<not> ?P a b < 5 / 100" if "\<not> dunn_h (group_latency df_h cats) a b < 5 / 100"
      using that by (simp add: posthoc_dunn_def)
    from R r ab have row: "\<not> ?P a b < 5 / 100 \<longrightarrow> comparison_effect r = Not_significant"
      by (auto simp: list_all_iff)
    from R have calls: "delta_calls rep_h = filter (\<lambda>(a, b). ?P a b < 5 / 100)
                                               (index_pairs (observed cats))" by simp
    show "case comparison_pair r of (a, b) \<Rightarrow>
            \<not> dunn_h (group_latency df_h cats) a b < 5 / 100 \<longrightarrow>
              comparison_effect r = Not_significant \<and> (a, b) \<notin> set (delta_calls rep_h)"
      using row P by (simp add: ab calls)
  qed
  with q R show "\<exists>cats. qcut (map (\<lambda>m. feature (fst m)) df_h) = Inr cats
         \<and> map comparison_pair rows_h = index_pairs (observed cats)
         \<and> (\<forall>r \<in> set rows_h. case comparison_pair r of (a, b) \<Rightarrow>
               \<not> dunn_h (group_latency df_h cats) a b < 5 / 100 \<longrightarrow>
                 comparison_effect r = Not_significant
                 \<and> (a, b) \<notin> set (delta_calls rep_h))"
    by blast
qed

theorem effect_size_cell_by_script_witness:
  "produce_posthoc_cliffs_table sample_dunn sign_delta sample_frame_15 Gas_Price
     = Inr (map (\<lambda>(pr, p, s, e). \<lparr>comparison_pair = pr, comparison_p_value = p,
                                   comparison_significant = Some s, comparison_effect = e\<rparr>)
              [((Q1, Q2), 1, False, Not_significant),
               ((Q1, Q3), 1, False, Not_significant),
               ((Q1, Q4), 1371 / 10000, False, Not_significant),
               ((Q1, Q5), 102 / 10000, True, Delta (- 1)),
               ((Q2, Q3), 1, False, Not_significant),
               ((Q2, Q4), 1, False, Not_significant),
               ((Q2, Q5), 1371 / 10000, False, Not_significant),
               ((Q3, Q4), 1, False, Not_significant),
               ((Q3, Q5), 1, False, Not_significant),
               ((Q4, Q5), 1, False, Not_significant)],
            index_pairs labels)
   \<and> analyze_factor sample_kruskal sample_dunn sign_delta sample_frame_15 Block_Size
     = Inr \<lparr>kruskal_result = (27 / 2, 90743171 / 10 ^ 10),
            posthoc_table =
              Some (map (\<lambda>(pr, p, s). \<lparr>comparison_pair = pr, comparison_p_value = p,
                                        comparison_significant = Some s,
                                        comparison_effect = Delta (- 1)\<rparr>)
                      [((Q1, Q2), 1, False), ((Q1, Q3), 1, False),
                       ((Q1, Q4), 13711 / 100000, False), ((Q1, Q5), 1015 / 100000, True),
                       ((Q2, Q3), 1, False), ((Q2, Q4), 1, False),
                       ((Q2, Q5), 13711 / 100000, False), ((Q3, Q4), 1, False),
                       ((Q3, Q5), 1, False), ((Q4, Q5), 1, False)]),
            delta_calls = index_pairs labels\<rparr>
   \<and> perform_statistical_analysis sample_kruskal sample_dunn sample_frame_15 Transaction_Count
     = Inr \<lparr>kruskal_result = (27 / 2, 90743171 / 10 ^ 10),
            posthoc_table =
              Some (map (\<lambda>(pr, p, e). \<lparr>comparison_pair = pr, comparison_p_value = p,
                                        comparison_significant = None, comparison_effect = e\<rparr>)
                      [((Q1, Q2), 4113137918 / 10 ^ 10, Not_significant),
                       ((Q1, Q3), 1003482465 / 10 ^ 10, Not_significant),
                       ((Q1, Q4), 137108301 / 10 ^ 10, Delta (- 1)),
                       ((Q1, Q5), 10150009 / 10 ^ 10, Delta (- 1)),
                       ((Q2, Q3), 4113137918 / 10 ^ 10, Not_significant),
                       ((Q2, Q4), 1003482465 / 10 ^ 10, Not_significant),
                       ((Q2, Q5), 137108301 / 10 ^ 10, Delta (- 1)),
                       ((Q3, Q4), 4113137918 / 10 ^ 10, Not_significant),
                       ((Q3, Q5), 1003482465 / 10 ^ 10, Not_significant),
                       ((Q4, Q5), 4113137918 / 10 ^ 10, Not_significant)]),
            delta_calls = [(Q1, Q4), (Q1, Q5), (Q2, Q5)]\<rparr>"
proof -
  let ?R1 = "map (\<lambda>(pr, p, s, e). \<lparr>comparison_pair = pr, comparison_p_value = p,
                                   comparison_significant = Some s, comparison_effect = e\<rparr>)
              [((Q1, Q2), 1, False, Not_significant),
               ((Q1, Q3), 1, False, Not_significant),
               ((Q1, Q4), 1371 / 10000, False, Not_significant),
               ((Q1, Q5), 102 / 10000, True, Delta (- 1)),
               ((Q2, Q3), 1, False, Not_significant),
               ((Q2, Q4), 1, False, Not_significant),
               ((Q2, Q5), 1371 / 10000, False, Not_significant),
               ((Q3, Q4), 1, False, Not_significant),
               ((Q3, Q5), 1, False, Not_significant),
               ((Q4, Q5), 1, False, Not_significant)]"
  let ?R2 = "map (\<lambda>(pr, p, s). \<lparr>comparison_pair = pr, comparison_p_value = p,
                                        comparison_significant = Some s,
                                        comparison_effect = Delta (- 1)\<rparr>)
                      [((Q1, Q2), 1, False), ((Q1, Q3), 1, False),
                       ((Q1, Q4), 13711 / 100000, False), ((Q1, Q5), 1015 / 100000, True),
                       ((Q2, Q3), 1, False), ((Q2, Q4), 1, False),
                       ((Q2, Q5), 13711 / 100000, False), ((Q3, Q4), 1, False),
                       ((Q3, Q5), 1, False), ((Q4, Q5), 1, False)]"
  let ?Rh = "map (\<lambda>(pr, p, e). \<lparr>comparison_pair = pr, comparison_p_value = p,
                                        comparison_significant = None, comparison_effect = e\<rparr>)
                      [((Q1, Q2), 4113137918 / 10 ^ 10, Not_significant),
                       ((Q1, Q3), 1003482465 / 10 ^ 10, Not_significant),
                       ((Q1, Q4), 137108301 / 10 ^ 10, Delta (- 1)),
                       ((Q1, Q5), 10150009 / 10 ^ 10, Delta (- 1)),
                       ((Q2, Q3), 4113137918 / 10 ^ 10, Not_significant),
                       ((Q2, Q4), 1003482465 / 10 ^ 10, Not_significant),
                       ((Q2, Q5), 137108301 / 10 ^ 10, Delta (- 1)),
                       ((Q3, Q4), 4113137918 / 10 ^ 10, Not_significant),
                       ((Q3, Q5), 1003482465 / 10 ^ 10, Not_significant),
                       ((Q4, Q5), 4113137918 / 10 ^ 10, Not_significant)]"
  let ?rep2 = "\<lparr>kruskal_result = (27 / 2, 90743171 / 10 ^ 10), posthoc_table = Some ?R2,
                 delta_calls = index_pairs labels\<rparr>"
  let ?reph = "\<lparr>kruskal_result = (27 / 2, 90743171 / 10 ^ 10), posthoc_table = Some ?Rh,
                 delta_calls = [(Q1, Q4), (Q1, Q5), (Q2, Q5)]\<rparr>"
  have e1: "produce_posthoc_cliffs_table sample_dunn sign_delta sample_frame_15 Gas_Price
              = Inr (?R1, index_pairs labels)"
    by code_simp
  have e2: "analyze_factor sample_kruskal sample_dunn sign_delta sample_frame_15 Block_Size
              = Inr ?rep2"
    by code_simp
  have eh: "perform_statistical_analysis sample_kruskal sample_dunn sample_frame_15
              Transaction_Count = Inr ?reph"
    by code_simp
  have t2: "posthoc_table ?rep2 = Some ?R2" by simp
  have th: "posthoc_table ?reph = Some ?Rh" by simp
  from effect_size_cell_by_script
         [where dunn_one = sample_dunn and pkg_one = sign_delta and df_one = sample_frame_15
            and factor_one = Gas_Price and rows_one = ?R1 and calls_one = "index_pairs labels"
            and kruskal_two = sample_kruskal and dunn_two = sample_dunn and pkg_two = sign_delta
            and df_two = sample_frame_15 and factor_two = Block_Size and rep_two = ?rep2
            and rows_two = ?R2
            and kruskal_h = sample_kruskal and dunn_h = sample_dunn and df_h = sample_frame_15
            and feature = Transaction_Count and rep_h = ?reph and rows_h = ?Rh]
       e1 e2 eh t2 th
  show ?thesis by blast
qed

text \<open>
  Claim C4 as it is written fails on \<open>analyze_factor\<close> of Phase 2, on the frame of
  fifteen records. The omnibus test is significant (\<open>H = 27/2\<close>, \<open>p = 0.0091\<close>), so that
  the post-hoc table is made. The corrected p-value of the pair Q1, Q2 is \<open>1\<close>, the
  column says that the pair is not significant, and the row carries the delta \<open>-1\<close>;
  the delta function was called for each of the ten pairs, nine of which are not
  below 0.05.
\<close>

theorem delta_reported_for_pair_not_significant:
  "analyze_factor sample_kruskal sample_dunn sign_delta sample_frame_15 Gas_Price
     = Inr \<lparr>kruskal_result = (27 / 2, 90743171 / 10 ^ 10),
            posthoc_table =
              Some [\<lparr>comparison_pair = (Q1, Q2), comparison_p_value = 1,
                      comparison_significant = Some False, comparison_effect = Delta (- 1)\<rparr>,
                    \<lparr>comparison_pair = (Q1, Q3), comparison_p_value = 1,
                      comparison_significant = Some False, comparison_effect = Delta (- 1)\<rparr>,
                    \<lparr>comparison_pair = (Q1, Q4), comparison_p_value = 13711 / 100000,
                      comparison_significant = Some False, comparison_effect = Delta (- 1)\<rparr>,
                    \<lparr>comparison_pair = (Q1, Q5), comparison_p_value = 1015 / 100000,
                      comparison_significant = Some True, comparison_effect = Delta (- 1)\<rparr>,
                    \<lparr>comparison_pair = (Q2, Q3), comparison_p_value = 1,
                      comparison_significant = Some False, comparison_effect = Delta (- 1)\<rparr>,
                    \<lparr>comparison_pair = (Q2, Q4), comparison_p_value = 1,
                      comparison_significant = Some False, comparison_effect = Delta (- 1)\<rparr>,
                    \<lparr>comparison_pair = (Q2, Q5), comparison_p_value = 13711 / 100000,
                      comparison_significant = Some False, comparison_effect = Delta (- 1)\<rparr>,
                    \<lparr>comparison_pair = (Q3, Q4), comparison_p_value = 1,
                      comparison_significant = Some False, comparison_effect = Delta (- 1)\<rparr>,
                    \<lparr>comparison_pair = (Q3, Q5), comparison_p_value = 1,
                      comparison_significant = Some False, comparison_effect = Delta (- 1)\<rparr>,
                    \<lparr>comparison_pair = (Q4, Q5), comparison_p_value = 1,
                      comparison_significant = Some False, comparison_effect = Delta (- 1)\<rparr>],
            delta_calls = [(Q1, Q2), (Q1, Q3), (Q1, Q4), (Q1, Q5), (Q2, Q3), (Q2, Q4),
                           (Q2, Q5), (Q3, Q4), (Q3, Q5), (Q4, Q5)]\<rparr>"
  by code_simp

section \<open>Which p-values reach the table, and when the post-hoc test runs\<close>

text \<open>
  Claim C1, on the frame of fifteen records, on which the omnibus test is
  significant (\<open>H = 27/2\<close>, \<open>p = 0.0091\<close>). \<open>perform_statistical_analysis\<close> of the two
  Statistical\_analysis scripts puts the p-values of Dunn's test into the rows as
  they are: the pairs Q1, Q4 and Q2, Q5 have \<open>0.0137\<close>, which is below 0.05, and get
  an effect size. The Bonferroni correction over the ten comparisons gives \<open>0.1371\<close>
  for these two pairs, which is not below 0.05; it is what
  \<open>produce_posthoc_cliffs_table\<close> of Phase 1 puts into the rows for the same data,
  where only the pair Q1, Q5 is significant.
\<close>

theorem HighGasUsed_posthoc_without_correction:
  "perform_statistical_analysis sample_kruskal sample_dunn sample_frame_15 Gas_Price
     = Inr \<lparr>kruskal_result = (27 / 2, 90743171 / 10 ^ 10),
            posthoc_table =
              Some (map (\<lambda>(pr, p, e). \<lparr>comparison_pair = pr, comparison_p_value = p,
                                        comparison_significant = None, comparison_effect = e\<rparr>)
                      [((Q1, Q2), 4113137918 / 10 ^ 10, Not_significant),
                       ((Q1, Q3), 1003482465 / 10 ^ 10, Not_significant),
                       ((Q1, Q4), 137108301 / 10 ^ 10, Delta (- 1)),
                       ((Q1, Q5), 10150009 / 10 ^ 10, Delta (- 1)),
                       ((Q2, Q3), 4113137918 / 10 ^ 10, Not_significant),
                       ((Q2, Q4), 1003482465 / 10 ^ 10, Not_significant),
                       ((Q2, Q5), 137108301 / 10 ^ 10, Delta (- 1)),
                       ((Q3, Q4), 4113137918 / 10 ^ 10, Not_significant),
                       ((Q3, Q5), 1003482465 / 10 ^ 10, Not_significant),
                       ((Q4, Q5), 4113137918 / 10 ^ 10, Not_significant)]),
            delta_calls = [(Q1, Q4), (Q1, Q5), (Q2, Q5)]\<rparr>
   \<and> produce_posthoc_cliffs_table sample_dunn sign_delta sample_frame_15 Gas_Price
     = Inr (map (\<lambda>(pr, p, s, e). \<lparr>comparison_pair = pr, comparison_p_value = p,
                                   comparison_significant = Some s, comparison_effect = e\<rparr>)
              [((Q1, Q2), 1, False, Not_significant),
               ((Q1, Q3), 1, False, Not_significant),
               ((Q1, Q4), 1371 / 10000, False, Not_significant),
               ((Q1, Q5), 102 / 10000, True, Delta (- 1)),
               ((Q2, Q3), 1, False, Not_significant),
               ((Q2, Q4), 1, False, Not_significant),
               ((Q2, Q5), 1371 / 10000, False, Not_significant),
               ((Q3, Q4), 1, False, Not_significant),
               ((Q3, Q5), 1, False, Not_significant),
               ((Q4, Q5), 1, False, Not_significant)],
            index_pairs labels)
   \<and> bonferroni 10 (137108301 / 10 ^ 10) = 137108301 / 10 ^ 9
   \<and> \<not> bonferroni 10 (137108301 / 10 ^ 10) < 5 / 100"
  by code_simp

text \<open>
  Claim C2, on the frame of five records, on which the omnibus test is not
  significant (\<open>H = 4\<close>, \<open>p = 0.406\<close>). The main part of
  Latency\_analysis\_each\_function.py prints, for each of the three covariates, that no
  significant differences were detected, and then the matrix of Dunn's test all the
  same. \<open>perform_statistical_analysis\<close> of Statistical\_analysis\_HighGasUsed.py, on the
  same input, makes no post-hoc table.
\<close>

theorem each_function_posthoc_without_gate:
  "analyze_each_function sample_kruskal sample_dunn sample_frame
     = Inr (concat (replicate 3
         [Kruskal_Wallis_test 4 (4060058497 / 10 ^ 10), No_significant_differences_detected,
          Posthoc_Dunn_Test
            (concat (map (\<lambda>a. map (\<lambda>b. (a, b, if a = Q1 \<and> b = Q5 \<or> a = Q5 \<and> b = Q1
                                               then 736382701 / 10 ^ 9 else 1)) labels)
                         labels))]))
   \<and> perform_statistical_analysis sample_kruskal sample_dunn sample_frame Gas_Price
     = Inr \<lparr>kruskal_result = (4, 4060058497 / 10 ^ 10), posthoc_table = None,
            delta_calls = []\<rparr>"
  by code_simp

section \<open>Hash-based merge\<close>
















section \<open>Index-based grouping\<close>

lemma set_map_filter: "set (List.map_filter f xs) = {y. \<exists>x \<in> set xs. f x = Some y}"
  by (induction xs) (auto simp: List.map_filter_simps split: option.splits)

lemma set_group_keys: "set (group_keys key df) = {k. \<exists>r \<in> set df. key r = Some k}"
  by (simp add: group_keys_def set_map_filter)

lemma distinct_group_keys: "distinct (group_keys key df)"
  by (simp add: group_keys_def)

lemma first_valid_Cons: "v \<noteq> None \<Longrightarrow> first_valid (v # vs) = v"
  by (simp add: first_valid_def)

lemma groupby_first_generic:
  fixes key :: "latency_row \<Rightarrow> 'k::linorder option"
  assumes inj: "inj e"
    and gk: "\<And>r. gk r = map_option e (key r)"
    and mk_key: "\<And>k. gk (mk k) = Some (e k)"
    and mk_lat: "\<And>k. Latency (mk k) = first_valid (map Latency (group_rows key df k))"
  defines "out \<equiv> map mk (sort (group_keys key df))"
  shows "distinct (map gk out)"
    and "set (map gk out) = {k. k \<noteq> None \<and> (\<exists>r \<in> set df. gk r = k)}"
    and "\<forall>row \<in> set out. Latency row
            = first_valid (map Latency (filter (\<lambda>r. gk r = gk row) df))"
proof -
  have m: "map gk out = map (\<lambda>k. Some (e k)) (sort (group_keys key df))"
    by (simp add: out_def mk_key)
  have "inj (\<lambda>k. Some (e k))" using inj by (auto simp: inj_def)
  then have "inj_on (\<lambda>k. Some (e k)) (set (sort (group_keys key df)))"
    by (rule inj_on_subset) simp
  then show "distinct (map gk out)"
    unfolding m by (simp add: distinct_map distinct_group_keys)
  show "set (map gk out) = {k. k \<noteq> None \<and> (\<exists>r \<in> set df. gk r = k)}"
  proof (rule set_eqI)
    fix x
    have "x \<in> set (map gk out) \<longleftrightarrow> (\<exists>k. (\<exists>r \<in> set df. key r = Some k) \<and> x = Some (e k))"
      unfolding m by (auto simp: set_group_keys)
    also have "\<dots> \<longleftrightarrow> x \<noteq> None \<and> (\<exists>r \<in> set df. gk r = x)"
    proof
      assume "\<exists>k. (\<exists>r \<in> set df. key r = Some k) \<and> x = Some (e k)"
      then obtain k r where "r \<in> set df" "key r = Some k" "x = Some (e k)" by blast
      then show "x \<noteq> None \<and> (\<exists>r \<in> set df. gk r = x)" by (auto simp: gk)
    next
      assume a: "x \<noteq> None \<and> (\<exists>r \<in> set df. gk r = x)"
      then obtain r where r: "r \<in> set df" "gk r = x" by blast
      with a obtain k where "key r = Some k" "x = Some (e k)"
        by (cases "key r") (auto simp: gk)
      with r show "\<exists>k. (\<exists>r \<in> set df. key r = Some k) \<and> x = Some (e k)" by blast
    qed
    finally show "x \<in> set (map gk out) \<longleftrightarrow> x \<in> {k. k \<noteq> None \<and> (\<exists>r \<in> set df. gk r = k)}"
      by simp
  qed
  show "\<forall>row \<in> set out. Latency row = first_valid (map Latency (filter (\<lambda>r. gk r = gk row) df))"
  proof
    fix row assume "row \<in> set out"
    then obtain k where row: "row = mk k" by (auto simp: out_def)
    have "\<And>r. gk r = Some (e k) \<longleftrightarrow> key r = Some k"
    proof -
      fix r show "gk r = Some (e k) \<longleftrightarrow> key r = Some k"
        using inj by (cases "key r") (auto simp: gk inj_def)
    qed
    then have "filter (\<lambda>r. gk r = gk row) df = group_rows key df k"
      by (simp add: row mk_key group_rows_def)
    then show "Latency row = first_valid (map Latency (filter (\<lambda>r. gk r = gk row) df))"
      by (simp add: row mk_lat)
  qed
qed

lemma load_latency_file_index:
  assumes "has_latency_column f" and "has_Iteration f"
  shows "load_latency_file True u f =
           Some (if has_UserIndex f
                 then map select_Latency_Iteration_UserIndex
                          (groupby_Iteration_UserIndex_first (file_rows f))
                 else map select_Latency_Iteration (groupby_Iteration_first (file_rows f)))"
  using assms by (simp add: load_latency_file_def)

text \<open>
  Claim C9, as pandas' \<open>first\<close> has it. In index-based mode, for a latency file with
  the declared latency column and an \<open>Iteration\<close> column, the Loader keeps exactly one
  record for every group of rows with the same (Iteration, UserIndex) key, or the
  same Iteration when the file has no \<open>UserIndex\<close> column. The latency of the record is
  the first latency of the group, in the order of the file, that is not missing; it
  is the latency of the first-seen row of the group when that row has one.
\<close>

theorem index_based_first_per_group:
  assumes "has_latency_column f" and "has_Iteration f"
  shows "\<exists>out. load_latency_file True use_transaction_hash f = Some out
           \<and> distinct (map (group_key (has_UserIndex f)) out)
           \<and> set (map (group_key (has_UserIndex f)) out)
               = {k. k \<noteq> None \<and> (\<exists>r \<in> set (file_rows f). group_key (has_UserIndex f) r = k)}
           \<and> (\<forall>row \<in> set out.
                 Latency row = first_valid (map Latency
                    (filter (\<lambda>r. group_key (has_UserIndex f) r = group_key (has_UserIndex f) row)
                            (file_rows f))))
           \<and> (\<forall>row \<in> set out. \<forall>r rest.
                 filter (\<lambda>r. group_key (has_UserIndex f) r = group_key (has_UserIndex f) row)
                        (file_rows f) = r # rest \<and> Latency r \<noteq> None
                 \<longrightarrow> Latency row = Latency r)"
proof -
  define df where "df = file_rows f"
  define gk where "gk = group_key (has_UserIndex f)"
  have main: "\<exists>out. load_latency_file True use_transaction_hash f = Some out
           \<and> distinct (map gk out)
           \<and> set (map gk out) = {k. k \<noteq> None \<and> (\<exists>r \<in> set df. gk r = k)}
           \<and> (\<forall>row \<in> set out.
                 Latency row = first_valid (map Latency (filter (\<lambda>r. gk r = gk row) df)))"
  proof (cases "has_UserIndex f")
    case True
    define mk where "mk = (\<lambda>k. select_Latency_Iteration_UserIndex
        (case k of (i, u) \<Rightarrow>
           \<lparr>Latency = first_valid (map Latency (group_rows key_Iteration_UserIndex df (i, u))),
            Transaction_Hash = first_valid (map Transaction_Hash
                                  (group_rows key_Iteration_UserIndex df (i, u))),
            Iteration = Some i, UserIndex = Some u\<rparr>))"
    define e where "e = (\<lambda>(i :: int, u :: int). (i, Some u))"
    define out where "out = map mk (sort (group_keys key_Iteration_UserIndex df))"
    have load: "load_latency_file True use_transaction_hash f = Some out"
      using True
      by (simp add: load_latency_file_index [OF assms] out_def mk_def df_def
            groupby_Iteration_UserIndex_first_def Let_def case_prod_beta)
    have inj: "inj e" by (auto simp: inj_def e_def)
    have gk: "\<And>r. gk r = map_option e (key_Iteration_UserIndex r)"
      using True
      by (simp add: gk_def group_key_def key_Iteration_UserIndex_def e_def
            split: option.splits)
    have mk_key: "\<And>k. gk (mk k) = Some (e k)"
      using True
      by (simp add: gk_def group_key_def mk_def e_def select_Latency_Iteration_UserIndex_def
            split: prod.splits)
    have mk_lat: "\<And>k. Latency (mk k)
                      = first_valid (map Latency (group_rows key_Iteration_UserIndex df k))"
      by (simp add: mk_def select_Latency_Iteration_UserIndex_def split: prod.splits)
    note G = groupby_first_generic [of e gk key_Iteration_UserIndex mk df,
                OF inj gk mk_key mk_lat, folded out_def]
    from load G show ?thesis by blast
  next
    case False
    define mk where "mk = (\<lambda>i. select_Latency_Iteration
           \<lparr>Latency = first_valid (map Latency (group_rows Iteration df i)),
            Transaction_Hash = first_valid (map Transaction_Hash (group_rows Iteration df i)),
            Iteration = Some i,
            UserIndex = first_valid (map UserIndex (group_rows Iteration df i))\<rparr>)"
    define e where "e = (\<lambda>i :: int. (i, None :: int option))"
    define out where "out = map mk (sort (group_keys Iteration df))"
    have load: "load_latency_file True use_transaction_hash f = Some out"
      using False
      by (simp add: load_latency_file_index [OF assms] out_def mk_def df_def
            groupby_Iteration_first_def Let_def)
    have inj: "inj e" by (auto simp: inj_def e_def)
    have gk: "\<And>r. gk r = map_option e (Iteration r)"
      using False by (simp add: gk_def group_key_def e_def split: option.splits)
    have mk_key: "\<And>k. gk (mk k) = Some (e k)"
      using False
      by (simp add: gk_def group_key_def mk_def e_def select_Latency_Iteration_def)
    have mk_lat: "\<And>k. Latency (mk k) = first_valid (map Latency (group_rows Iteration df k))"
      by (simp add: mk_def select_Latency_Iteration_def)
    note G = groupby_first_generic [of e gk Iteration mk df,
                OF inj gk mk_key mk_lat, folded out_def]
    from load G show ?thesis by blast
  qed
  then obtain out where out: "load_latency_file True use_transaction_hash f = Some out"
      "distinct (map gk out)"
      "set (map gk out) = {k. k \<noteq> None \<and> (\<exists>r \<in> set df. gk r = k)}"
      "\<forall>row \<in> set out.
          Latency row = first_valid (map Latency (filter (\<lambda>r. gk r = gk row) df))"
    by blast
  have first: "\<forall>row \<in> set out. \<forall>r rest.
                 filter (\<lambda>r. gk r = gk row) df = r # rest \<and> Latency r \<noteq> None
                 \<longrightarrow> Latency row = Latency r"
    using out(4) by (auto simp: first_valid_Cons)
  from out first show ?thesis unfolding gk_def df_def by blast
qed

theorem index_based_first_per_group_witness:
  "has_latency_column (sample_file False True True
       [sample_indexed (Some 9) 2 1, sample_indexed (Some 3) 1 1, sample_indexed (Some 4) 1 1,
        sample_indexed (Some 5) 2 1])
   \<and> has_Iteration (sample_file False True True
       [sample_indexed (Some 9) 2 1, sample_indexed (Some 3) 1 1, sample_indexed (Some 4) 1 1,
        sample_indexed (Some 5) 2 1])
   \<and> load_latency_file True False (sample_file False True True
       [sample_indexed (Some 9) 2 1, sample_indexed (Some 3) 1 1, sample_indexed (Some 4) 1 1,
        sample_indexed (Some 5) 2 1])
     = Some [sample_indexed (Some 3) 1 1, sample_indexed (Some 9) 2 1]"
proof -
  let ?F = "sample_file False True True
       [sample_indexed (Some 9) 2 1, sample_indexed (Some 3) 1 1, sample_indexed (Some 4) 1 1,
        sample_indexed (Some 5) 2 1]"
  have h1: "has_latency_column ?F" by code_simp
  have h2: "has_Iteration ?F" by code_simp
  have e: "load_latency_file True False ?F
             = Some [sample_indexed (Some 3) 1 1, sample_indexed (Some 9) 2 1]"
    by code_simp
  from index_based_first_per_group [OF h1 h2, of False] h1 h2 e show ?thesis by simp
qed

text \<open>
  Claim C9 as it is written fails on a group whose first-seen row has no latency:
  the record that the Loader keeps for the group, and that the merge then puts beside
  the block row, holds the latency of the second row.
\<close>

theorem first_seen_row_not_kept:
  "load_latency_file True False
       (sample_file False True True [sample_indexed None 1 1, sample_indexed (Some 3) 1 1])
     = Some [sample_indexed (Some 3) 1 1]
   \<and> sample_indexed (Some 3) 1 1 \<noteq> sample_indexed None 1 1
   \<and> process_service_data
       [Some (sample_file False True True [sample_indexed None 1 1, sample_indexed (Some 3) 1 1])]
       [Some [sample_block 1024 ''a'']] True False
     = [(sample_block 1024 ''a''\<lparr>Block_Size := Some 1\<rparr>, sample_indexed (Some 3) 1 1)]"
  by code_simp

section \<open>The Quintile Binner on distinct values\<close>

text \<open>
  When the values are pairwise distinct, the six edges increase strictly, the value
  at place \<open>t\<close> of the sorted values falls into the bin \<open>q\<close> with
  \<open>rank q * (N - 1) < 5 * t\<close> and \<open>5 * t \<le> (rank q + 1) * (N - 1)\<close>, and the size of the bin
  is \<open>bin_count N q\<close>.
\<close>

lemma floor_fifths: "\<lfloor>(of_nat m :: rat) / 5\<rfloor> = int (m div 5)"
  using floor_divide_of_nat_eq [of m 5, where ?'a = rat] by simp

lemma frac_fifths: "(of_nat m :: rat) / 5 - of_nat (m div 5) = of_nat (m mod 5) / 5"
proof -
  have "(of_nat m :: rat) = of_nat (5 * (m div 5) + m mod 5)" by simp
  also have "\<dots> = 5 * of_nat (m div 5) + of_nat (m mod 5)"
    by (simp only: of_nat_add of_nat_mult of_nat_numeral)
  finally have e: "(of_nat m :: rat) = 5 * of_nat (m div 5) + of_nat (m mod 5)" .
  show ?thesis by (subst e) (simp add: add_divide_distrib)
qed

lemma ceiling_fifths:
  "\<lceil>(of_nat m :: rat) / 5\<rceil> = (if m mod 5 = 0 then int (m div 5) else int (Suc (m div 5)))"
proof -
  have "\<lceil>(of_nat m :: rat) / 5\<rceil>
          = (if (of_nat m :: rat) / 5 = of_int \<lfloor>(of_nat m :: rat) / 5\<rfloor>
             then \<lfloor>(of_nat m :: rat) / 5\<rfloor> else \<lfloor>(of_nat m :: rat) / 5\<rfloor> + 1)"
    by (rule ceiling_altdef)
  moreover have "(of_nat m :: rat) / 5 = of_int (int (m div 5)) \<longleftrightarrow> m mod 5 = 0"
    using frac_fifths [of m] by (auto simp: algebra_simps)
  ultimately show ?thesis by (simp add: floor_fifths)
qed

lemma quantile_fifths:
  "quantile s (of_nat k / 5) = at_fifths s (k * (length s - 1))"
proof -
  define m where "m = k * (length s - 1)"
  have pos: "(of_nat k :: rat) / 5 * of_nat (length s - 1) = of_nat m / 5"
    by (simp add: m_def)
  show ?thesis
    unfolding quantile_def Let_def pos m_def [symmetric] at_fifths_def
    by (simp add: floor_fifths ceiling_fifths frac_fifths nat_add_distrib)
qed

lemma nth_less_iff:
  assumes "sorted s" and "distinct s" and "i < length s" and "j < length s"
  shows "s ! i < s ! j \<longleftrightarrow> i < j"
proof
  assume lt: "s ! i < s ! j"
  show "i < j"
  proof (rule ccontr)
    assume "\<not> i < j"
    then have "j \<le> i" by simp
    with assms have "s ! j \<le> s ! i" by (simp add: sorted_nth_mono)
    with lt show False by simp
  qed
next
  assume ij: "i < j"
  with assms have le: "s ! i \<le> s ! j" by (simp add: sorted_nth_mono)
  from assms ij have "s ! i \<noteq> s ! j" by (simp add: nth_eq_iff_index_eq)
  with le show "s ! i < s ! j" by simp
qed

lemma nth_le_iff:
  assumes "sorted s" and "distinct s" and "i < length s" and "j < length s"
  shows "s ! i \<le> s ! j \<longleftrightarrow> i \<le> j"
  using nth_less_iff [OF assms(1,2,4,3)] by (simp add: not_less [symmetric])

lemma at_fifths_exact: "m mod 5 = 0 \<Longrightarrow> at_fifths s m = s ! (m div 5)"
  by (simp add: at_fifths_def)

lemma at_fifths_between:
  assumes "sorted s" and "distinct s" and "Suc (m div 5) < length s" and "0 < m mod 5"
  shows "s ! (m div 5) < at_fifths s m" and "at_fifths s m < s ! Suc (m div 5)"
proof -
  define d where "d = s ! Suc (m div 5) - s ! (m div 5)"
  define f :: rat where "f = of_nat (m mod 5) / 5"
  have "s ! (m div 5) < s ! Suc (m div 5)"
    using nth_less_iff [OF assms(1,2), of "m div 5" "Suc (m div 5)"] assms(3) by simp
  then have d: "0 < d" by (simp add: d_def)
  have "m mod 5 < 5" by simp
  then have "(of_nat (m mod 5) :: rat) < of_nat 5" by (simp only: of_nat_less_iff)
  then have f1: "f < 1" by (simp add: f_def)
  have f0: "0 < f" using assms(4) by (simp add: f_def)
  have e: "at_fifths s m = s ! (m div 5) + d * f"
    by (simp add: at_fifths_def d_def f_def)
  from d f0 have "0 < d * f" by simp
  then show "s ! (m div 5) < at_fifths s m" by (simp add: e)
  from d f1 have "d * f < d * 1" by (simp only: mult_strict_left_mono)
  then show "at_fifths s m < s ! Suc (m div 5)" by (simp add: e d_def)
qed

lemma index_in_range:
  assumes "m \<le> 5 * (length s - 1)" and "0 < length s"
  shows "m div 5 < length s"
    and "0 < m mod 5 \<Longrightarrow> Suc (m div 5) < length s"
proof -
  from assms(2) have one: "1 \<le> length s" by linarith
  from assms(1) have "m div 5 \<le> length s - 1" by simp
  with one show "m div 5 < length s" by linarith
  assume "0 < m mod 5"
  with assms(1) have "m div 5 < length s - 1" by presburger
  then show "Suc (m div 5) < length s" by linarith
qed

lemma at_fifths_lower:
  assumes "sorted s" and "distinct s" and "m \<le> 5 * (length s - 1)" and "0 < length s"
  shows "s ! (m div 5) \<le> at_fifths s m"
proof (cases "m mod 5 = 0")
  case True
  then show ?thesis by (simp add: at_fifths_exact)
next
  case False
  then have r: "0 < m mod 5" by simp
  from at_fifths_between(1) [OF assms(1,2) index_in_range(2) [OF assms(3,4) r] r]
  show ?thesis by simp
qed

lemma at_fifths_less_nth:
  assumes "sorted s" and "distinct s" and "m \<le> 5 * (length s - 1)" and "t < length s"
  shows "at_fifths s m < s ! t \<longleftrightarrow> m < 5 * t"
proof (cases "m mod 5 = 0")
  case True
  from assms(4) have pos: "0 < length s" by linarith
  have "at_fifths s m < s ! t \<longleftrightarrow> m div 5 < t"
    using nth_less_iff [OF assms(1,2) index_in_range(1) [OF assms(3) pos] assms(4)] True
    by (simp add: at_fifths_exact)
  also have "\<dots> \<longleftrightarrow> m < 5 * t" using True by presburger
  finally show ?thesis .
next
  case False
  then have r: "0 < m mod 5" by simp
  from assms(4) have pos: "0 < length s" by linarith
  note suc = index_in_range(2) [OF assms(3) pos r]
  note btw = at_fifths_between [OF assms(1,2) suc r]
  show ?thesis
  proof (cases "Suc (m div 5) \<le> t")
    case True
    then have "s ! Suc (m div 5) \<le> s ! t"
      using nth_le_iff [OF assms(1,2) suc assms(4)] by simp
    with btw(2) have "at_fifths s m < s ! t" by simp
    moreover from True have "m < 5 * t" by presburger
    ultimately show ?thesis by simp
  next
    case False
    then have le: "t \<le> m div 5" by simp
    then have "s ! t \<le> s ! (m div 5)"
      using nth_le_iff [OF assms(1,2) assms(4) index_in_range(1) [OF assms(3) pos]] by simp
    with btw(1) have "\<not> at_fifths s m < s ! t" by simp
    moreover from le have "\<not> m < 5 * t" by presburger
    ultimately show ?thesis by simp
  qed
qed

lemma at_fifths_strict_mono:
  assumes "sorted s" and "distinct s" and "m < m'" and "m' \<le> 5 * (length s - 1)"
  shows "at_fifths s m < at_fifths s m'"
proof -
  from assms(3,4) have pos: "0 < length s" by linarith
  from assms have m: "m \<le> 5 * (length s - 1)" by simp
  show ?thesis
  proof (cases "m div 5 = m' div 5")
    case True
    with assms(3) have r: "m mod 5 < m' mod 5"
      by (metis add_less_cancel_left mult_div_mod_eq)
    then have r': "0 < m' mod 5" by simp
    note suc = index_in_range(2) [OF assms(4) pos r']
    define d where "d = s ! Suc (m' div 5) - s ! (m' div 5)"
    have "s ! (m' div 5) < s ! Suc (m' div 5)"
      using nth_less_iff [OF assms(1,2), of "m' div 5" "Suc (m' div 5)"] suc by simp
    then have d: "0 < d" by (simp add: d_def)
    from r have "(of_nat (m mod 5) :: rat) / 5 < of_nat (m' mod 5) / 5" by simp
    with d have "d * (of_nat (m mod 5) / 5) < d * (of_nat (m' mod 5) / 5)"
      by (simp only: mult_strict_left_mono)
    then show ?thesis by (simp add: at_fifths_def True d_def)
  next
    case False
    with assms(3) have lt: "m div 5 < m' div 5"
      by (meson div_le_mono less_imp_le_nat le_neq_implies_less)
    note i' = index_in_range(1) [OF assms(4) pos]
    from lt i' have suc: "Suc (m div 5) < length s" by simp
    have "at_fifths s m < s ! Suc (m div 5)"
    proof (cases "m mod 5 = 0")
      case True
      then show ?thesis
        using nth_less_iff [OF assms(1,2), of "m div 5" "Suc (m div 5)"] suc
        by (simp add: at_fifths_exact)
    next
      case False
      then show ?thesis using at_fifths_between(2) [OF assms(1,2) suc] by simp
    qed
    also have "s ! Suc (m div 5) \<le> s ! (m' div 5)"
      using nth_le_iff [OF assms(1,2) suc i'] lt by simp
    also have "\<dots> \<le> at_fifths s m'" by (rule at_fifths_lower [OF assms(1,2,4) pos])
    finally show ?thesis .
  qed
qed

lemma upt_6: "[0..<6] = [0, 1, 2, 3, 4, 5]"
  by (simp add: upt_rec)

lemma bin_edges_at_fifths:
  "bin_edges xs = map (\<lambda>k. at_fifths (sort xs) (k * (length xs - 1))) [0..<6]"
  by (simp add: bin_edges_def quantile_fifths)

lemma distinct_bin_edges:
  assumes "distinct xs" and "2 \<le> length xs"
  shows "distinct (bin_edges xs)"
proof -
  define s where "s = sort xs"
  define M where "M = length xs - 1"
  have s: "sorted s" "distinct s" "length s = length xs"
    using assms(1) by (simp_all add: s_def)
  from assms(2) have M: "0 < M" by (simp add: M_def)
  have mono: "at_fifths s (i * M) < at_fifths s (j * M)" if "i < j" "j < 6" for i j
  proof -
    from that M have "i * M < j * M" by simp
    moreover from that have "j * M \<le> 5 * (length s - 1)" by (simp add: s M_def)
    ultimately show ?thesis by (rule at_fifths_strict_mono [OF s(1,2)])
  qed
  have "bin_edges xs ! i \<noteq> bin_edges xs ! j"
    if "i < length (bin_edges xs)" "j < length (bin_edges xs)" "i \<noteq> j" for i j
  proof -
    from that have ij: "i < 6" "j < 6" by (simp_all add: bin_edges_at_fifths)
    then have e: "bin_edges xs ! i = at_fifths s (i * M)" "bin_edges xs ! j = at_fifths s (j * M)"
      by (simp_all add: bin_edges_at_fifths s_def M_def)
    from that(3) consider "i < j" | "j < i" by linarith
    then show ?thesis
    proof cases
      case 1
      from mono [OF 1 ij(2)] show ?thesis by (simp add: e)
    next
      case 2
      from mono [OF 2 ij(1)] show ?thesis by (simp add: e)
    qed
  qed
  then show ?thesis by (simp add: distinct_conv_nth)
qed

lemma searchsorted_nth:
  assumes "distinct xs" and "t < length xs"
  shows "searchsorted_left (bin_edges xs) (sort xs ! t)
           = length (filter (\<lambda>k. k * (length xs - 1) < 5 * t) [0..<6])"
proof -
  define s where "s = sort xs"
  have s: "sorted s" "distinct s" "length s = length xs"
    using assms(1) by (simp_all add: s_def)
  have "\<And>k. k \<in> set [0..<6] \<Longrightarrow>
          (at_fifths s (k * (length xs - 1)) < s ! t) = (k * (length xs - 1) < 5 * t)"
  proof -
    fix k :: nat assume "k \<in> set [0..<6]"
    then have "k * (length xs - 1) \<le> 5 * (length s - 1)" by (simp add: s)
    then show "(at_fifths s (k * (length xs - 1)) < s ! t) = (k * (length xs - 1) < 5 * t)"
      using assms(2) by (intro at_fifths_less_nth [OF s(1,2)]) (simp_all add: s)
  qed
  then have "filter (\<lambda>k. at_fifths s (k * (length xs - 1)) < s ! t) [0..<6]
               = filter (\<lambda>k. k * (length xs - 1) < 5 * t) [0..<6]"
    by (intro filter_cong) simp_all
  then show ?thesis
    by (simp add: searchsorted_left_def bin_edges_at_fifths filter_map o_def s_def)
qed

lemma first_edge: "bin_edges xs ! 0 = sort xs ! 0"
  by (simp add: bin_edges_at_fifths at_fifths_def upt_6)

lemma cut_label_nth:
  assumes "distinct xs" and "2 \<le> length xs" and "t < length xs"
  shows "cut_label (bin_edges xs) (sort xs ! t) = Some q
           \<longleftrightarrow> (if t = 0 then q = Q1
                else rank q * (length xs - 1) < 5 * t
                     \<and> 5 * t \<le> Suc (rank q) * (length xs - 1))"
proof -
  define s where "s = sort xs"
  define M where "M = length xs - 1"
  have s: "sorted s" "distinct s" "length s = length xs"
    using assms(1) by (simp_all add: s_def)
  from assms(2) have M: "0 < M" by (simp add: M_def)
  from assms(3) have tM: "t \<le> M" by (simp add: M_def)
  have len: "length (bin_edges xs) = 6" by (simp add: bin_edges_def)
  from assms(2) s(3) have zero_in: "0 < length s" by linarith
  from assms(3) s(3) have t_in: "t < length s" by linarith
  have zero: "s ! t = bin_edges xs ! 0 \<longleftrightarrow> t = 0"
    using nth_eq_iff_index_eq [OF s(2) t_in zero_in]
    by (simp add: first_edge s_def [symmetric])
  show ?thesis
  proof (cases "t = 0")
    case True
    with zero show ?thesis
      by (cases q) (auto simp: cut_label_def len labels_def s_def)
  next
    case False
    then have t: "0 < t" by simp
    have c: "searchsorted_left (bin_edges xs) (s ! t)
               = length (filter (\<lambda>k. k * M < 5 * t) [0..<6])"
      unfolding s_def M_def by (rule searchsorted_nth [OF assms(1,3)])
    show ?thesis
      using False zero t tM M
      unfolding cut_label_def Let_def len c s_def [symmetric] M_def [symmetric] upt_6
      by (cases q) (auto simp: labels_def rank_def)
  qed
qed

lemma map_filter_Some: "List.map_filter id (map Some xs) = xs"
  by (induction xs) (simp_all add: List.map_filter_simps)

lemma qcut_distinct_values:
  assumes "distinct xs" and "2 \<le> length xs"
  shows "qcut (map Some xs) = Inr (map (cut_label (bin_edges xs)) xs)"
proof -
  from assms(2) have "xs \<noteq> []" by auto
  then show ?thesis
    by (simp add: qcut_def map_filter_Some distinct_bin_edges [OF assms] o_def)
qed

lemma count_in_sorted:
  "length (filter P xs) = card {t. t < length xs \<and> P (sort xs ! t)}"
proof -
  have "length (filter P xs) = length (sort (filter P xs))" by simp
  also have "\<dots> = length (filter P (sort xs))" by (simp only: filter_sort)
  also have "\<dots> = card {t. t < length (sort xs) \<and> P (sort xs ! t)}"
    by (rule length_filter_conv_card)
  finally show ?thesis by simp
qed

lemma interval_fifths:
  fixes a b t M :: nat
  assumes "b \<le> 5 * M"
  shows "(t < Suc M \<and> t \<noteq> 0 \<and> a < 5 * t \<and> 5 * t \<le> b) \<longleftrightarrow> t \<in> {a div 5 <.. b div 5}"
proof -
  have l: "a < 5 * t \<longleftrightarrow> a div 5 < t" by presburger
  have u: "5 * t \<le> b \<longleftrightarrow> t \<le> b div 5" by presburger
  have "b div 5 \<le> M" using assms by presburger
  then show ?thesis unfolding greaterThanAtMost_iff l u by auto
qed

lemma bin_size_distinct_values:
  assumes "distinct xs" and "2 \<le> length xs"
  shows "bin_size (map (cut_label (bin_edges xs)) xs) q
           = (if q = Q1 then 1 else 0)
             + (Suc (rank q) * (length xs - 1) div 5 - rank q * (length xs - 1) div 5)"
proof -
  define M where "M = length xs - 1"
  define a where "a = rank q * M"
  define b where "b = Suc (rank q) * M"
  from assms(2) have N: "length xs = Suc M" by (simp add: M_def)
  have "rank q \<le> 4" by (cases q) (simp_all add: rank_def)
  then have b5: "b \<le> 5 * M" by (simp add: b_def)
  have "bin_size (map (cut_label (bin_edges xs)) xs) q
          = length (filter (\<lambda>v. cut_label (bin_edges xs) v = Some q) xs)"
    by (simp add: bin_size_def filter_map o_def)
  also have "\<dots> = card {t. t < length xs \<and> cut_label (bin_edges xs) (sort xs ! t) = Some q}"
    by (rule count_in_sorted)
  also have "{t. t < length xs \<and> cut_label (bin_edges xs) (sort xs ! t) = Some q}
               = {t. t < length xs \<and> (if t = 0 then q = Q1 else a < 5 * t \<and> 5 * t \<le> b)}"
    using cut_label_nth [OF assms, of _ q]
    by (auto simp: a_def b_def M_def)
  also have "\<dots> = (if q = Q1 then {0} else {}) \<union> {a div 5 <.. b div 5}"
  proof (rule set_eqI)
    fix t
    have "t \<in> {t. t < length xs \<and> (if t = 0 then q = Q1 else a < 5 * t \<and> 5 * t \<le> b)}
            \<longleftrightarrow> (t = 0 \<and> q = Q1) \<or> (t < Suc M \<and> t \<noteq> 0 \<and> a < 5 * t \<and> 5 * t \<le> b)"
      by (auto simp: N)
    also have "\<dots> \<longleftrightarrow> (t = 0 \<and> q = Q1) \<or> t \<in> {a div 5 <.. b div 5}"
      by (simp only: interval_fifths [OF b5])
    also have "\<dots> \<longleftrightarrow> t \<in> (if q = Q1 then {0} else {}) \<union> {a div 5 <.. b div 5}"
      by auto
    finally show "t \<in> {t. t < length xs \<and> (if t = 0 then q = Q1 else a < 5 * t \<and> 5 * t \<le> b)}
            \<longleftrightarrow> t \<in> (if q = Q1 then {0} else {}) \<union> {a div 5 <.. b div 5}" .
  qed
  also have "card \<dots> = (if q = Q1 then 1 else 0) + (b div 5 - a div 5)"
  proof -
    have "(if q = Q1 then {0} else {}) \<inter> {a div 5 <.. b div 5} = {}" by auto
    moreover have "finite (if q = Q1 then {0::nat} else {})" by simp
    ultimately have "card ((if q = Q1 then {0} else {}) \<union> {a div 5 <.. b div 5})
        = card (if q = Q1 then {0::nat} else {}) + card {a div 5 <.. b div 5}"
      by (intro card_Un_disjoint) simp_all
    then show ?thesis by simp
  qed
  finally show ?thesis unfolding a_def b_def M_def .
qed

lemma times_div5: "j * (5 * d + r) div 5 = j * d + j * r div 5" for j d r :: nat
proof -
  have "j * (5 * d + r) = j * r + (j * d) * 5" by (simp add: algebra_simps)
  then show ?thesis by (simp only: div_mult_self1 div_mult_self2 div_mult_self3 div_mult_self4)
qed

lemma bin_count_split:
  "bin_count (Suc (5 * d + r)) q = d + bin_count (Suc r) q"
proof -
  define j where "j = rank q"
  have A: "Suc j * (5 * d + r) div 5 = Suc j * d + Suc j * r div 5" by (rule times_div5)
  have B: "j * (5 * d + r) div 5 = j * d + j * r div 5" by (rule times_div5)
  have le: "j * r div 5 \<le> Suc j * r div 5" by (intro div_le_mono) simp
  have e: "Suc j * d = j * d + d" by simp
  have "Suc j * (5 * d + r) div 5 - j * (5 * d + r) div 5 = d + (Suc j * r div 5 - j * r div 5)"
    unfolding A B using le e by linarith
  then show ?thesis by (simp add: bin_count_def j_def)
qed

lemma all_labels: "q \<in> set labels"
  by (cases q) (simp_all add: labels_def)

lemma bin_count_table:
  "list_all (\<lambda>r. list_all (\<lambda>q. bin_count (Suc r) q \<le> 1
                               \<and> (bin_count (Suc r) q = Suc r div 5 \<or> bin_count (Suc r) q = 1))
                         labels
                 \<and> sum_list (map (bin_count (Suc r)) labels) = Suc r) [0..<5]"
  by code_simp

lemma bin_count_small:
  assumes "r < 5"
  shows "bin_count (Suc r) q \<le> 1"
    and "bin_count (Suc r) q = Suc r div 5 \<or> bin_count (Suc r) q = 1"
    and "sum_list (map (bin_count (Suc r)) labels) = Suc r"
proof -
  from assms have r: "r \<in> set [0..<5]" by simp
  from bin_count_table r
  have row: "list_all (\<lambda>q. bin_count (Suc r) q \<le> 1
                \<and> (bin_count (Suc r) q = Suc r div 5 \<or> bin_count (Suc r) q = 1)) labels
             \<and> sum_list (map (bin_count (Suc r)) labels) = Suc r"
    unfolding list_all_iff by blast
  then show "sum_list (map (bin_count (Suc r)) labels) = Suc r" by simp
  from row all_labels [of q]
  have "bin_count (Suc r) q \<le> 1
        \<and> (bin_count (Suc r) q = Suc r div 5 \<or> bin_count (Suc r) q = 1)"
    unfolding list_all_iff by blast
  then show "bin_count (Suc r) q \<le> 1"
    and "bin_count (Suc r) q = Suc r div 5 \<or> bin_count (Suc r) q = 1" by simp_all
qed

lemma bin_count_balanced:
  assumes "0 < N"
  shows "bin_count N a \<le> bin_count N b + 1"
    and "bin_count N q = N div 5 \<or> bin_count N q = (N + 4) div 5"
    and "sum_list (map (bin_count N) labels) = N"
    and "5 \<le> N \<Longrightarrow> 0 < bin_count N q"
proof -
  define d where "d = (N - 1) div 5"
  define r where "r = (N - 1) mod 5"
  have r: "r < 5" by (simp add: r_def)
  from assms have N: "N = Suc (5 * d + r)" by (simp add: d_def r_def)
  have split: "\<And>q. bin_count N q = d + bin_count (Suc r) q"
    unfolding N by (rule bin_count_split)
  from bin_count_small(1) [OF r, of a] show "bin_count N a \<le> bin_count N b + 1"
    by (simp add: split)
  have fl: "N div 5 = d + Suc r div 5"
  proof -
    have "N = Suc r + d * 5" by (simp add: N)
    then show ?thesis by (simp only: div_mult_self1 div_mult_self2 div_mult_self3 div_mult_self4)
  qed
  have ce: "(N + 4) div 5 = d + 1"
  proof -
    have "N + 4 = r + (Suc d) * 5" by (simp add: N)
    then have "(N + 4) div 5 = r div 5 + Suc d"
      by (simp only: div_mult_self1 div_mult_self2 div_mult_self3 div_mult_self4)
    with r show ?thesis by simp
  qed
  from bin_count_small(2) [OF r, of q]
  show "bin_count N q = N div 5 \<or> bin_count N q = (N + 4) div 5"
    by (auto simp: split fl ce)
  have "bin_count N = (\<lambda>q. d + bin_count (Suc r) q)"
    by (rule ext) (rule split)
  then have "sum_list (map (bin_count N) labels)
          = sum_list (map (\<lambda>q. d + bin_count (Suc r) q) labels)"
    by simp
  also have "\<dots> = 5 * d + sum_list (map (bin_count (Suc r)) labels)"
    by (simp add: labels_def)
  also have "\<dots> = N" by (simp add: bin_count_small(3) [OF r] N)
  finally show "sum_list (map (bin_count N) labels) = N" .
  show "0 < bin_count N q" if "5 \<le> N"
  proof (cases "d = 0")
    case True
    with that N r have "r = 4" by simp
    with bin_count_small(2) [OF r, of q] show ?thesis by (auto simp: split)
  next
    case False
    then show ?thesis by (simp add: split)
  qed
qed

lemma bin_size_Cons:
  "bin_size (c # cats) q = (if c = Some q then 1 else 0) + bin_size cats q"
  by (simp add: bin_size_def)

lemma sum_bin_size:
  "sum_list (map (bin_size cats) labels) = length (filter (\<lambda>c. c \<noteq> None) cats)"
proof (induction cats)
  case Nil
  show ?case by (simp add: bin_size_def labels_def)
next
  case (Cons c cats)
  have "sum_list (map (bin_size (c # cats)) labels)
          = sum_list (map (\<lambda>q. if c = Some q then 1 else 0) labels)
            + sum_list (map (bin_size cats) labels)"
    by (simp add: bin_size_Cons labels_def)
  moreover have "sum_list (map (\<lambda>q. if c = Some q then 1 else 0) labels)
                   = (if c \<noteq> None then 1 else (0::nat))"
  proof (cases c)
    case None
    then show ?thesis by (simp add: labels_def)
  next
    case (Some q)
    then show ?thesis by (cases q) (simp_all add: labels_def)
  qed
  ultimately show ?case using Cons.IH by simp
qed

lemma last_edge:
  assumes "xs \<noteq> []"
  shows "bin_edges xs ! 5 = sort xs ! (length xs - 1)"
proof -
  have "5 * (length xs - 1) div 5 = length xs - 1" by simp
  then show ?thesis
    by (simp add: bin_edges_at_fifths at_fifths_def upt_6)
qed

lemma qcut_constant:
  assumes "set (List.map_filter id x) \<subseteq> {c}"
  shows "qcut x = Inl ValueError"
proof (cases "List.map_filter id x = []")
  case True
  then show ?thesis by (simp add: qcut_def)
next
  case False
  define vs where "vs = List.map_filter id x"
  from False have ne: "vs \<noteq> []" by (simp add: vs_def)
  then have len: "0 < length (sort vs)" "length vs - 1 < length (sort vs)" by simp_all
  have "set (sort vs) \<subseteq> {c}" using assms by (simp add: vs_def)
  with nth_mem [OF len(1)] nth_mem [OF len(2)]
  have "sort vs ! 0 = c" "sort vs ! (length vs - 1) = c" by blast+
  then have "bin_edges vs ! 0 = bin_edges vs ! 5"
    by (simp add: first_edge last_edge [OF ne])
  moreover have "length (bin_edges vs) = 6" by (simp add: bin_edges_def)
  ultimately have "\<not> distinct (bin_edges vs)"
    using nth_eq_iff_index_eq [of "bin_edges vs" 0 5] by auto
  with ne show ?thesis by (simp add: qcut_def vs_def [symmetric] Let_def)
qed

lemma qcut_distinct_at_least_two:
  assumes "distinct xs" and "qcut (map Some xs) = Inr cats"
  shows "2 \<le> length xs"
proof (rule ccontr)
  assume "\<not> 2 \<le> length xs"
  then have "length xs \<le> 1" by simp
  then have "set xs \<subseteq> {hd xs}"
    by (cases xs) auto
  then have "set (List.map_filter id (map Some xs)) \<subseteq> {hd xs}"
    by (simp add: map_filter_Some)
  from qcut_constant [OF this] assms(2) show False by simp
qed

lemma bin_size_bin_count:
  assumes "distinct xs" and "2 \<le> length xs"
  shows "bin_size (map (cut_label (bin_edges xs)) xs) q = bin_count (length xs) q"
  by (simp add: bin_size_distinct_values [OF assms] bin_count_def)

text \<open>
  Claim C3, for a covariate whose values are pairwise distinct. When the binner
  succeeds on \<open>N\<close> such values, every record gets one of the five labels, the five
  bin sizes add up to \<open>N\<close>, any two of them differ by at most 1, and each of them is
  \<open>N\<close> divided by 5, rounded down or rounded up.
\<close>

theorem binner_balanced_on_distinct_values:
  assumes "distinct xs" and "qcut (map Some xs) = Inr cats"
  shows "length cats = length xs
       \<and> None \<notin> set cats
       \<and> sum_list (map (bin_size cats) labels) = length xs
       \<and> (\<forall>a b. bin_size cats a \<le> bin_size cats b + 1)
       \<and> (\<forall>q. bin_size cats q = length xs div 5 \<or> bin_size cats q = (length xs + 4) div 5)"
proof -
  have two: "2 \<le> length xs" using assms by (rule qcut_distinct_at_least_two)
  then have pos: "0 < length xs" by linarith
  from qcut_distinct_values [OF assms(1) two] assms(2)
  have cats: "cats = map (cut_label (bin_edges xs)) xs" by simp
  then have len: "length cats = length xs" by simp
  have size: "bin_size cats q = bin_count (length xs) q" for q
    unfolding cats by (rule bin_size_bin_count [OF assms(1) two])
  have "bin_size cats = bin_count (length xs)" by (rule ext) (rule size)
  then have total: "sum_list (map (bin_size cats) labels) = length xs"
    by (simp add: bin_count_balanced(3) [OF pos])
  then have "length (filter (\<lambda>c. c \<noteq> None) cats) = length cats"
    by (simp add: sum_bin_size len)
  then have "filter (\<lambda>c. c \<noteq> None) cats = cats"
    by (metis length_filter_less less_irrefl_nat filter_True)
  then have "\<forall>c \<in> set cats. c \<noteq> None" by (simp add: filter_id_conv)
  then have none: "None \<notin> set cats" by blast
  have diff: "\<forall>a b. bin_size cats a \<le> bin_size cats b + 1"
    using bin_count_balanced(1) [OF pos] by (simp add: size)
  have fc: "\<forall>q. bin_size cats q = length xs div 5 \<or> bin_size cats q = (length xs + 4) div 5"
    using bin_count_balanced(2) [OF pos] by (simp add: size)
  from len none total diff fc show ?thesis by blast
qed

theorem binner_balanced_on_distinct_values_witness:
  "distinct [7, 1, 4, 2, 6, 3, 5 :: rat]
   \<and> qcut (map Some [7, 1, 4, 2, 6, 3, 5])
       = Inr [Some Q5, Some Q1, Some Q3, Some Q1, Some Q5, Some Q2, Some Q4]
   \<and> map (bin_size [Some Q5, Some Q1, Some Q3, Some Q1, Some Q5, Some Q2, Some Q4]) labels
       = [2, 1, 1, 1, 2]"
proof -
  have d: "distinct [7, 1, 4, 2, 6, 3, 5 :: rat]" by simp
  have e: "qcut (map Some [7, 1, 4, 2, 6, 3, 5])
             = Inr [Some Q5, Some Q1, Some Q3, Some Q1, Some Q5, Some Q2, Some Q4]"
    by code_simp
  have s: "map (bin_size [Some Q5, Some Q1, Some Q3, Some Q1, Some Q5, Some Q2, Some Q4]) labels
             = [2, 1, 1, 1, 2]"
    by code_simp
  from binner_balanced_on_distinct_values [OF d e] d e s show ?thesis by simp
qed

text \<open>
  Claim C3 as it is written fails on tied values. The ten values 1, 2, 2, 2, 3, 4,
  5, 6, 7, 8 have the edges 1, 2, 2.6, 4.4, 6.2 and 8, no two of which are equal, so
  that the binner succeeds; the first bin holds four records and the second none.
\<close>

theorem binner_unbalanced_on_tied_values:
  "qcut (map Some [1, 2, 2, 2, 3, 4, 5, 6, 7, 8])
     = Inr [Some Q1, Some Q1, Some Q1, Some Q1, Some Q3, Some Q3, Some Q4, Some Q4,
            Some Q5, Some Q5]
   \<and> bin_size [Some Q1, Some Q1, Some Q1, Some Q1, Some Q3, Some Q3, Some Q4, Some Q4,
               Some Q5, Some Q5] Q1 = 4
   \<and> bin_size [Some Q1, Some Q1, Some Q1, Some Q1, Some Q3, Some Q3, Some Q4, Some Q4,
               Some Q5, Some Q5] Q2 = 0"
  by code_simp

text \<open>
  Claim C6, as \<open>qcut\<close> has it. The binner raises \<open>ValueError\<close> when the covariate has
  fewer than two distinct values: no value at all, or one value, however often. It
  succeeds and fills each of the five bins on five or more records whose values are
  pairwise distinct.
\<close>

theorem binner_fails_on_constant_succeeds_on_distinct:
  "(card (set (List.map_filter id x)) < 2 \<longrightarrow> qcut x = Inl ValueError)
   \<and> (distinct xs \<and> 5 \<le> length xs \<longrightarrow>
        (\<exists>cats. qcut (map Some xs) = Inr cats \<and> (\<forall>q. 0 < bin_size cats q)))"
proof (intro conjI impI)
  assume c: "card (set (List.map_filter id x)) < 2"
  have "\<exists>c. set (List.map_filter id x) \<subseteq> {c}"
  proof (cases "set (List.map_filter id x) = {}")
    case True
    then show ?thesis by simp
  next
    case False
    then have "card (set (List.map_filter id x)) \<noteq> 0" by simp
    with c have "card (set (List.map_filter id x)) = 1" by linarith
    then obtain v where "set (List.map_filter id x) = {v}" by (rule card_1_singletonE)
    then show ?thesis by blast
  qed
  then obtain v where "set (List.map_filter id x) \<subseteq> {v}" by blast
  then show "qcut x = Inl ValueError" by (rule qcut_constant)
next
  assume "distinct xs \<and> 5 \<le> length xs"
  then have d: "distinct xs" and five: "5 \<le> length xs" by simp_all
  from five have two: "2 \<le> length xs" by linarith
  from five have pos: "0 < length xs" by linarith
  have "\<forall>q. 0 < bin_size (map (cut_label (bin_edges xs)) xs) q"
    using bin_count_balanced(4) [OF pos five] by (simp add: bin_size_bin_count [OF d two])
  with qcut_distinct_values [OF d two]
  show "\<exists>cats. qcut (map Some xs) = Inr cats \<and> (\<forall>q. 0 < bin_size cats q)" by blast
qed

theorem binner_fails_on_constant_succeeds_on_distinct_witness:
  "card (set (List.map_filter id [Some 5, None, Some 5, Some (5 :: rat)])) < 2
   \<and> qcut [Some 5, None, Some 5, Some 5] = Inl ValueError
   \<and> distinct [5, 3, 1, 4, 2 :: rat] \<and> 5 \<le> length [5, 3, 1, 4, 2 :: rat]
   \<and> qcut (map Some [5, 3, 1, 4, 2]) = Inr [Some Q5, Some Q3, Some Q1, Some Q4, Some Q2]"
proof -
  have c: "card (set (List.map_filter id [Some 5, None, Some 5, Some (5 :: rat)])) < 2"
    by (simp add: List.map_filter_simps)
  have d: "distinct [5, 3, 1, 4, 2 :: rat] \<and> 5 \<le> length [5, 3, 1, 4, 2 :: rat]" by simp
  have e1: "qcut [Some 5, None, Some 5, Some 5] = Inl ValueError" by code_simp
  have e2: "qcut (map Some [5, 3, 1, 4, 2]) = Inr [Some Q5, Some Q3, Some Q1, Some Q4, Some Q2]"
    by code_simp
  from binner_fails_on_constant_succeeds_on_distinct
         [where x = "[Some 5, None, Some 5, Some 5]" and xs = "[5, 3, 1, 4, 2]"]
       c d e1 e2
  show ?thesis by simp
qed

text \<open>
  Claim C6 as it is written fails in both halves. The two values 0 and 10 are
  binned, into the first and the last bin, although fewer than five values are
  distinct; and the ten values 1, 1, 1, 1, 1, 1, 2, 3, 4, 5, five of which are
  distinct, have the edges 1, 1, 1, 1.4, 3.2 and 5 and raise \<open>ValueError\<close>.
\<close>

theorem distinct_value_count_not_decisive:
  "qcut (map Some [0, 10]) = Inr [Some Q1, Some Q5]
   \<and> length (remdups [0, 10 :: rat]) = 2
   \<and> qcut (map Some [1, 1, 1, 1, 1, 1, 2, 3, 4, 5]) = Inl ValueError
   \<and> length (remdups [1, 1, 1, 1, 1, 1, 2, 3, 4, 5 :: rat]) = 5"
  by code_simp

end
